theory Spec2Isabelle
  imports Complex_Main "HOL-Library.Char_ord" "HOL-Library.List_Lexorder" "HOL-Library.Multiset"
begin

section \<open>The check-in scheduler of db.ts, over a model of the JavaScript Date object\<close>

text \<open>
  The scheduling code of the repository (parseDate, diffDays, addDays, formatLocalDate,
  normalizeDate, calculateNextDueDate, calculateMissedCount and the record-store
  operations around them) works on strings and on the built-in Date object. A Date object
  holds a time value: a number of milliseconds since 1970-01-01T00:00:00Z, or NaN for an
  invalid date. The model keeps the time value as \<open>int option\<close> (\<open>None\<close> is NaN) and
  follows the abstract operations of the ECMAScript specification (Day, DayFromYear,
  YearFromTime, MonthFromTime, DateFromTime, MakeDay, MakeDate, TimeClip, LocalTime, UTC)
  under their own names.

  Two things the code reads from its host are parameters of the model, collected in the
  record \<open>env\<close>: the local time zone (the function LocalTZA of the ECMAScript
  specification, which gives the offset of local time from UTC in milliseconds) and the
  system clock (the time value \<open>new Date()\<close> returns).

  JavaScript numbers that the code uses as day counts are modelled as unbounded integers.
  The cadence length, which the code tests with \<open>Number.isFinite\<close>, has the type
  \<open>jsnum\<close>: an integer, a number with a fractional part, NaN or an infinity. A number
  with a fractional part is the rational number it denotes, and the arithmetic on it is
  exact. The code computes in binary floating point: its comparisons and remainders are
  exact, and its quotients and products are rounded, which leaves the results below as
  they are for a cadence such as 2.5 and day counts of the size of a calendar (the
  products are exact, and no quotient is close enough to a whole number for the rounding
  to change its floor).
\<close>

subsection \<open>Days and years\<close>

definition msPerDay :: int where
  "msPerDay = 86400000"

definition Day :: "int \<Rightarrow> int" where
  "Day t = t div msPerDay"

definition TimeWithinDay :: "int \<Rightarrow> int" where
  "TimeWithinDay t = t mod msPerDay"

definition DaysInYear :: "int \<Rightarrow> int" where
  "DaysInYear y =
     (if y mod 4 \<noteq> 0 then 365
      else if y mod 100 \<noteq> 0 then 366
      else if y mod 400 \<noteq> 0 then 365
      else 366)"

definition DayFromYear :: "int \<Rightarrow> int" where
  "DayFromYear y =
     365 * (y - 1970) + (y - 1969) div 4 - (y - 1901) div 100 + (y - 1601) div 400"

text \<open>The first day of the next year: a year has 365 or 366 days.\<close>

lemma div_step:
  "0 < k \<Longrightarrow> (a + 1) div k = a div k + (if (a + 1) mod k = 0 then 1 else 0)" for a k :: int
proof -
  assume k: "0 < k"
  have r: "0 \<le> a mod k" "a mod k < k" using k by simp_all
  have e: "k * (a div k) + a mod k = a" by (rule mult_div_mod_eq)
  show ?thesis
  proof (cases "a mod k = k - 1")
    case True
    have d: "k * (a div k + 1) = k * (a div k) + k" by (simp add: distrib_left)
    from True e d have "a + 1 = k * (a div k + 1) + 0" by linarith
    then have "(a + 1) div k = a div k + 1 \<and> (a + 1) mod k = 0"
      using k int_div_pos_eq [of "a + 1" k "a div k + 1" 0]
        int_mod_pos_eq [of "a + 1" k "a div k + 1" 0] by simp
    then show ?thesis by simp
  next
    case False
    then have lt: "a mod k + 1 < k" using r by linarith
    have "a + 1 = k * (a div k) + (a mod k + 1)" using e by linarith
    then have "(a + 1) div k = a div k \<and> (a + 1) mod k = a mod k + 1"
      using lt r k int_div_pos_eq [of "a + 1" k "a div k" "a mod k + 1"]
        int_mod_pos_eq [of "a + 1" k "a div k" "a mod k + 1"] by simp
    then show ?thesis using r by simp
  qed
qed

lemma mod_shift: "(y - k * c) mod k = y mod k" for y k c :: int
  using mod_mult_self2 [of y k "- c"] by simp

lemma leap_div_4:
  "(y - 1968) div 4 = (y - 1969) div 4 + (if y mod 4 = 0 then 1 else 0)" for y :: int
  using div_step [of 4 "y - 1969"] mod_shift [of y 4 492] by simp

lemma leap_div_100:
  "(y - 1900) div 100 = (y - 1901) div 100 + (if y mod 100 = 0 then 1 else 0)" for y :: int
  using div_step [of 100 "y - 1901"] mod_shift [of y 100 19] by simp

lemma leap_div_400:
  "(y - 1600) div 400 = (y - 1601) div 400 + (if y mod 400 = 0 then 1 else 0)" for y :: int
  using div_step [of 400 "y - 1601"] mod_shift [of y 400 4] by simp

lemma mod_100_4: "y mod 100 = 0 \<Longrightarrow> y mod 4 = 0" for y :: int
proof -
  assume "y mod 100 = 0"
  then have "100 dvd y" by (simp add: dvd_eq_mod_eq_0)
  moreover have "(4::int) dvd 100" by simp
  ultimately have "4 dvd y" by (rule dvd_trans [rotated])
  then show ?thesis by simp
qed

lemma mod_400_100: "y mod 400 = 0 \<Longrightarrow> y mod 100 = 0" for y :: int
proof -
  assume "y mod 400 = 0"
  then have "400 dvd y" by (simp add: dvd_eq_mod_eq_0)
  moreover have "(100::int) dvd 400" by simp
  ultimately have "100 dvd y" by (rule dvd_trans [rotated])
  then show ?thesis by simp
qed

lemma DaysInYear_sum:
  "DaysInYear y = 365 + (if y mod 4 = 0 then 1 else 0) - (if y mod 100 = 0 then 1 else 0)
     + (if y mod 400 = 0 then 1 else 0)"
  using mod_100_4 [of y] mod_400_100 [of y] by (auto simp add: DaysInYear_def)

lemma DayFromYear_Suc_lin:
  fixes e1 e0 y A B C A' B' C' a b c :: int
  assumes "e1 = 365 * (y - 1969) + A' - B' + C'" and "e0 = 365 * (y - 1970) + A - B + C"
    and "A' = A + a" and "B' = B + b" and "C' = C + c"
  shows "e1 = e0 + (365 + a - b + c)"
  unfolding assms by (simp add: algebra_simps)

lemma DayFromYear_Suc: "DayFromYear (y + 1) = DayFromYear y + DaysInYear y"
proof -
  have e: "DayFromYear (y + 1) =
      365 * (y - 1969) + (y - 1968) div 4 - (y - 1900) div 100 + (y - 1600) div 400"
    by (simp add: DayFromYear_def)
  have f: "DayFromYear y =
      365 * (y - 1970) + (y - 1969) div 4 - (y - 1901) div 100 + (y - 1601) div 400"
    by (simp add: DayFromYear_def)
  show ?thesis
    unfolding DaysInYear_sum
    by (rule DayFromYear_Suc_lin [OF e f leap_div_4 leap_div_100 leap_div_400])
qed

lemma DaysInYear_cases: "DaysInYear y = 365 \<or> DaysInYear y = 366"
  unfolding DaysInYear_def by simp

lemma DayFromYear_less_Suc: "DayFromYear y < DayFromYear (y + 1)"
  using DayFromYear_Suc [of y] DaysInYear_cases [of y] by linarith

lemma DayFromYear_pred_less: "DayFromYear (y - 1) < DayFromYear y"
  using DayFromYear_less_Suc [of "y - 1"] by simp

text \<open>
  YearFromTime is specified as the largest year whose first day is not after the given
  day. The search below starts from the estimate \<open>1970 + d div 365\<close>, walks down while
  the year starts after the day and then up while the next year starts on or before it.
\<close>

function yearDown :: "int \<Rightarrow> int \<Rightarrow> int" where
  "yearDown d y = (if d < DayFromYear y then yearDown d (y - 1) else y)"
  by pat_completeness auto
termination
proof (relation "measure (\<lambda>(d, y). nat (DayFromYear y - d))")
  show "wf (measure (\<lambda>(d, y). nat (DayFromYear y - d)))" by simp
next
  fix d y :: int
  assume "d < DayFromYear y"
  then show "((d, y - 1), (d, y)) \<in> measure (\<lambda>(d, y). nat (DayFromYear y - d))"
    using DayFromYear_pred_less [of y] by simp
qed

function yearUp :: "int \<Rightarrow> int \<Rightarrow> int" where
  "yearUp d y = (if DayFromYear (y + 1) \<le> d then yearUp d (y + 1) else y)"
  by pat_completeness auto
termination
proof (relation "measure (\<lambda>(d, y). nat (d - DayFromYear y))")
  show "wf (measure (\<lambda>(d, y). nat (d - DayFromYear y)))" by simp
next
  fix d y :: int
  assume "DayFromYear (y + 1) \<le> d"
  then show "((d, y + 1), (d, y)) \<in> measure (\<lambda>(d, y). nat (d - DayFromYear y))"
    using DayFromYear_less_Suc [of y] by simp
qed

declare yearDown.simps [simp del]
declare yearUp.simps [simp del]

definition YearFromDay :: "int \<Rightarrow> int" where
  "YearFromDay d = yearUp d (yearDown d (1970 + d div 365))"

definition YearFromTime :: "int \<Rightarrow> int" where
  "YearFromTime t = YearFromDay (Day t)"

definition InLeapYear :: "int \<Rightarrow> int" where
  "InLeapYear y = (if DaysInYear y = 366 then 1 else 0)"

definition DayWithinYear :: "int \<Rightarrow> int" where
  "DayWithinYear d = d - DayFromYear (YearFromDay d)"

text \<open>
  The first day of month \<open>m\<close> (0 is January) within a year, \<open>l\<close> being 1 in a leap
  year and 0 otherwise: the table of MonthFromTime in the ECMAScript specification.
\<close>

definition monthStart :: "int \<Rightarrow> int \<Rightarrow> int" where
  "monthStart l m =
     (if m \<le> 0 then 0
      else if m = 1 then 31
      else if m = 2 then 59 + l
      else if m = 3 then 90 + l
      else if m = 4 then 120 + l
      else if m = 5 then 151 + l
      else if m = 6 then 181 + l
      else if m = 7 then 212 + l
      else if m = 8 then 243 + l
      else if m = 9 then 273 + l
      else if m = 10 then 304 + l
      else if m = 11 then 334 + l
      else 365 + l)"

definition monthOfDayWithinYear :: "int \<Rightarrow> int \<Rightarrow> int" where
  "monthOfDayWithinYear l n =
     (if n < 31 then 0
      else if n < 59 + l then 1
      else if n < 90 + l then 2
      else if n < 120 + l then 3
      else if n < 151 + l then 4
      else if n < 181 + l then 5
      else if n < 212 + l then 6
      else if n < 243 + l then 7
      else if n < 273 + l then 8
      else if n < 304 + l then 9
      else if n < 334 + l then 10
      else 11)"

definition MonthFromDay :: "int \<Rightarrow> int" where
  "MonthFromDay d = monthOfDayWithinYear (InLeapYear (YearFromDay d)) (DayWithinYear d)"

definition DateFromDay :: "int \<Rightarrow> int" where
  "DateFromDay d =
     DayWithinYear d - monthStart (InLeapYear (YearFromDay d)) (MonthFromDay d) + 1"

definition MonthFromTime :: "int \<Rightarrow> int" where
  "MonthFromTime t = MonthFromDay (Day t)"

definition DateFromTime :: "int \<Rightarrow> int" where
  "DateFromTime t = DateFromDay (Day t)"

text \<open>
  MakeDay: the day number of the given year, month (0 to 11, other values carry into the
  year) and day of the month (any integer: day 0 is the last day of the month before, day
  32 runs into the next month).
\<close>

definition MakeDay :: "int \<Rightarrow> int \<Rightarrow> int \<Rightarrow> int" where
  "MakeDay year month date =
     (let ym = year + month div 12;
          mn = month mod 12
      in DayFromYear ym + monthStart (InLeapYear ym) mn + date - 1)"

definition MakeDate :: "int \<Rightarrow> int \<Rightarrow> int" where
  "MakeDate day time = day * msPerDay + time"

definition MakeTime :: "int \<Rightarrow> int \<Rightarrow> int \<Rightarrow> int \<Rightarrow> int" where
  "MakeTime hour minute sec ms = hour * 3600000 + minute * 60000 + sec * 1000 + ms"

definition TimeClip :: "int \<Rightarrow> int option" where
  "TimeClip t = (if \<bar>t\<bar> > 8640000000000000 then None else Some t)"


subsection \<open>The host: time zone and clock\<close>

record env =
  LocalTZA :: "int \<Rightarrow> bool \<Rightarrow> int"
  clock :: int

text \<open>
  \<open>LocalTZA e t True\<close> is the offset in force at the UTC time value \<open>t\<close>, and
  \<open>LocalTZA e t False\<close> the offset in force at the local time value \<open>t\<close>.
\<close>

definition LocalTime :: "env \<Rightarrow> int \<Rightarrow> int" where
  "LocalTime e t = t + LocalTZA e t True"

definition UTC :: "env \<Rightarrow> int \<Rightarrow> int" where
  "UTC e t = t - LocalTZA e t False"

subsection \<open>Strings of digits\<close>

definition isDigit :: "char \<Rightarrow> bool" where
  "isDigit c = (48 \<le> (of_char c :: nat) \<and> (of_char c :: nat) \<le> 57)"

definition digitVal :: "char \<Rightarrow> int" where
  "digitVal c = int (of_char c) - 48"

definition digitChar :: "nat \<Rightarrow> char" where
  "digitChar k = char_of (48 + k)"

definition digitsVal :: "string \<Rightarrow> int" where
  "digitsVal s = foldl (\<lambda>a c. 10 * a + digitVal c) 0 s"

text \<open>\<open>String(n)\<close> for an integer \<open>n\<close>, and \<open>padStart(2, "0")\<close>.\<close>

function showNat :: "nat \<Rightarrow> string" where
  "showNat n = (if n < 10 then [digitChar n] else showNat (n div 10) @ [digitChar (n mod 10)])"
  by pat_completeness auto
termination
  by (relation "measure (\<lambda>n. n)") auto

declare showNat.simps [simp del]

definition showInt :: "int \<Rightarrow> string" where
  "showInt i = (if i < 0 then CHR ''-'' # showNat (nat (- i)) else showNat (nat i))"

definition padStart2 :: "string \<Rightarrow> string" where
  "padStart2 s = replicate (2 - length s) CHR ''0'' @ s"

subsection \<open>Date.parse on the date-time string format\<close>

text \<open>
  The model of \<open>new Date(string)\<close> reads the ECMAScript date-time string format with a
  four-digit year: a date \<open>YYYY\<close>, \<open>YYYY-MM\<close> or \<open>YYYY-MM-DD\<close>, alone (then it is a UTC
  date) or followed by \<open>T\<close> and a time \<open>HH:mm\<close>, \<open>HH:mm:ss\<close> or \<open>HH:mm:ss.sss\<close>, which is
  local time unless a \<open>Z\<close> follows. The month is 01 to 12 and the day 01 to 31; a day
  past the end of its month is carried into the next month (30 February 2024 is read as
  1 March 2024), as JavaScriptCore, the engine of Bun, does. Every other string gives
  NaN: expanded years, numeric offsets and the fallback formats that an engine may accept
  beyond the standard one are not modelled. No theorem below depends on how such strings
  are read, except that NaN-NaN-NaN and not-a-date are not dates.
\<close>

text \<open>The length of month \<open>m\<close> (0 is January) of year \<open>y\<close>.\<close>

definition daysInMonth :: "int \<Rightarrow> int \<Rightarrow> int" where
  "daysInMonth y m = monthStart (InLeapYear y) (m + 1) - monthStart (InLeapYear y) m"

definition parseDatePart :: "string \<Rightarrow> (int \<times> int \<times> int) option" where
  "parseDatePart s =
     (if length s = 4 \<and> list_all isDigit s then Some (digitsVal s, 1, 1)
      else if length s = 7 \<and> list_all isDigit (take 4 s) \<and> s ! 4 = CHR ''-''
              \<and> list_all isDigit (drop 5 s)
        then Some (digitsVal (take 4 s), digitsVal (drop 5 s), 1)
      else if length s = 10 \<and> list_all isDigit (take 4 s) \<and> s ! 4 = CHR ''-''
              \<and> list_all isDigit (take 2 (drop 5 s)) \<and> s ! 7 = CHR ''-''
              \<and> list_all isDigit (drop 8 s)
        then Some (digitsVal (take 4 s), digitsVal (take 2 (drop 5 s)), digitsVal (drop 8 s))
      else None)"

text \<open>
  The day number of a date as the calendar has it: the day is one of the month. This is
  the reading of the canonical dates below.
\<close>

definition parseDay :: "string \<Rightarrow> int option" where
  "parseDay s =
     (case parseDatePart s of
        None \<Rightarrow> None
      | Some (y, m, d) \<Rightarrow>
          if 1 \<le> m \<and> m \<le> 12 \<and> 1 \<le> d \<and> d \<le> daysInMonth y (m - 1)
          then Some (MakeDay y (m - 1) d) else None)"

text \<open>
  The day number of a date as the engine reads it: a day up to 31 is accepted in every
  month. The two readings agree on the dates of the calendar.
\<close>

definition parseDayLenient :: "string \<Rightarrow> int option" where
  "parseDayLenient s =
     (case parseDatePart s of
        None \<Rightarrow> None
      | Some (y, m, d) \<Rightarrow>
          if 1 \<le> m \<and> m \<le> 12 \<and> 1 \<le> d \<and> d \<le> 31
          then Some (MakeDay y (m - 1) d) else None)"

definition parseTimePart :: "string \<Rightarrow> int option" where
  "parseTimePart s =
     (let n = length s;
          h = digitsVal (take 2 s);
          mi = digitsVal (take 2 (drop 3 s));
          sec = (if n = 5 then 0 else digitsVal (take 2 (drop 6 s)));
          ms = (if n = 12 then digitsVal (drop 9 s) else 0)
      in if (n = 5 \<or> n = 8 \<or> n = 12)
            \<and> list_all isDigit (take 2 s) \<and> s ! 2 = CHR '':''
            \<and> list_all isDigit (take 2 (drop 3 s))
            \<and> (n = 5 \<or> s ! 5 = CHR '':'' \<and> list_all isDigit (take 2 (drop 6 s)))
            \<and> (n \<noteq> 12 \<or> s ! 8 = CHR ''.'' \<and> list_all isDigit (drop 9 s))
            \<and> mi \<le> 59 \<and> sec \<le> 59
            \<and> (h \<le> 23 \<or> h = 24 \<and> mi = 0 \<and> sec = 0 \<and> ms = 0)
         then Some (MakeTime h mi sec ms) else None)"

definition parseTimeZ :: "env \<Rightarrow> int \<Rightarrow> string \<Rightarrow> int option" where
  "parseTimeZ e day ts =
     (if ts \<noteq> [] \<and> last ts = CHR ''Z''
      then (case parseTimePart (butlast ts) of
              None \<Rightarrow> None
            | Some time \<Rightarrow> TimeClip (MakeDate day time))
      else (case parseTimePart ts of
              None \<Rightarrow> None
            | Some time \<Rightarrow> TimeClip (UTC e (MakeDate day time))))"

definition newDate :: "env \<Rightarrow> string \<Rightarrow> int option" where
  "newDate e s =
     (let ds = takeWhile (\<lambda>c. c \<noteq> CHR ''T'') s;
          rest = dropWhile (\<lambda>c. c \<noteq> CHR ''T'') s
      in case parseDayLenient ds of
           None \<Rightarrow> None
         | Some day \<Rightarrow>
             if rest = [] then TimeClip (MakeDate day 0)
             else parseTimeZ e day (tl rest))"

subsection \<open>The Date methods the code calls\<close>

definition getDate :: "env \<Rightarrow> int \<Rightarrow> int" where
  "getDate e t = DateFromTime (LocalTime e t)"

definition setDate :: "env \<Rightarrow> int \<Rightarrow> int \<Rightarrow> int option" where
  "setDate e t dt =
     (let lt = LocalTime e t;
          nd = MakeDate (MakeDay (YearFromTime lt) (MonthFromTime lt) dt) (TimeWithinDay lt)
      in TimeClip (UTC e nd))"

subsection \<open>The date helpers of db.ts\<close>

text \<open>
  An invalid Date has NaN for its year, month and day, and the template string of
  formatLocalDate then reads NaN-NaN-NaN.
\<close>

definition formatLocalDate :: "env \<Rightarrow> int option \<Rightarrow> string" where
  "formatLocalDate e date =
     (case date of
        None \<Rightarrow> ''NaN-NaN-NaN''
      | Some t \<Rightarrow>
          let year = YearFromTime (LocalTime e t);
              month = padStart2 (showInt (MonthFromTime (LocalTime e t) + 1));
              day = padStart2 (showInt (DateFromTime (LocalTime e t)))
          in showInt year @ ''-'' @ month @ ''-'' @ day)"

definition today :: "env \<Rightarrow> string" where
  "today e = formatLocalDate e (Some (clock e))"

definition parseDate :: "env \<Rightarrow> string \<Rightarrow> int option" where
  "parseDate e v = newDate e (v @ ''T00:00:00'')"

definition diffDays :: "env \<Rightarrow> string \<Rightarrow> string \<Rightarrow> int" where
  "diffDays e startDate endDate =
     (case (parseDate e startDate, parseDate e endDate) of
        (Some s, Some en) \<Rightarrow> (en - s) div 86400000
      | _ \<Rightarrow> 0)"

text \<open>
  The numbers a cadence length can be: \<open>Num n\<close> is the integer \<open>n\<close> and \<open>Frac q\<close> the
  finite number of value \<open>q\<close>, written so when it has a fractional part.
\<close>

datatype jsnum = Num int | Frac rat | NaN | PosInfinity | NegInfinity

fun isFinite :: "jsnum \<Rightarrow> bool" where
  "isFinite (Num n) = True"
| "isFinite (Frac q) = True"
| "isFinite _ = False"

text \<open>\<open>cadenceDays <= 0\<close>.\<close>

fun numLe0 :: "jsnum \<Rightarrow> bool" where
  "numLe0 (Num n) = (n \<le> 0)"
| "numLe0 (Frac q) = (q \<le> 0)"
| "numLe0 NegInfinity = True"
| "numLe0 _ = False"

text \<open>
  The arithmetic of the code on a cadence length and a whole number of days. The code
  applies \<open>%\<close> and \<open>/\<close> behind its guards only, to a number of days that is not
  negative and a cadence length that is finite and positive: there the remainder \<open>a % c\<close>
  is \<open>a - c * floor(a / c)\<close>, and the quotient is a finite number.
\<close>

fun remainderIsZero :: "int \<Rightarrow> jsnum \<Rightarrow> bool" where
  "remainderIsZero a (Num n) = (a mod n = 0)"
| "remainderIsZero a (Frac q) = (of_int a - q * of_int \<lfloor>of_int a / q\<rfloor> = 0)"
| "remainderIsZero a NaN = False"
| "remainderIsZero a PosInfinity = (a = 0)"
| "remainderIsZero a NegInfinity = (a = 0)"

text \<open>\<open>Math.floor(a / c)\<close>.\<close>

fun floorDiv :: "int \<Rightarrow> jsnum \<Rightarrow> int" where
  "floorDiv a (Num n) = a div n"
| "floorDiv a (Frac q) = \<lfloor>of_int a / q\<rfloor>"
| "floorDiv a _ = 0"

text \<open>\<open>k * c\<close> for a whole number \<open>k\<close>.\<close>

fun multiply :: "int \<Rightarrow> jsnum \<Rightarrow> jsnum" where
  "multiply k (Num n) = Num (k * n)"
| "multiply k (Frac q) = Frac (of_int k * q)"
| "multiply k NaN = NaN"
| "multiply k PosInfinity = (if k = 0 then NaN else if 0 < k then PosInfinity else NegInfinity)"
| "multiply k NegInfinity = (if k = 0 then NaN else if 0 < k then NegInfinity else PosInfinity)"

text \<open>
  The reference date of calculateMissedCount defaults to \<open>today()\<close>; the callers below
  pass it explicitly.
\<close>

definition calculateMissedCount :: "env \<Rightarrow> string \<Rightarrow> jsnum \<Rightarrow> string \<Rightarrow> int" where
  "calculateMissedCount e nextDue cadenceDays referenceDate =
     (if nextDue = [] \<or> \<not> isFinite cadenceDays \<or> numLe0 cadenceDays then 0
      else
        let daysLate = diffDays e nextDue referenceDate
        in if daysLate \<le> 0 then 0
           else floorDiv (daysLate - 1) cadenceDays + 1)"

text \<open>The test of \<open>/^\d{4}-\d{2}-\d{2}$/\<close>.\<close>

definition matchesDatePattern :: "string \<Rightarrow> bool" where
  "matchesDatePattern s =
     (length s = 10 \<and> list_all isDigit (take 4 s) \<and> s ! 4 = CHR ''-''
      \<and> list_all isDigit (take 2 (drop 5 s)) \<and> s ! 7 = CHR ''-''
      \<and> list_all isDigit (drop 8 s))"

text \<open>A missing argument (undefined or null) is \<open>None\<close>; the empty string is falsy too.\<close>

definition normalizeDate :: "env \<Rightarrow> string option \<Rightarrow> string" where
  "normalizeDate e value =
     (case value of
        None \<Rightarrow> today e
      | Some v \<Rightarrow>
          if v = [] then today e
          else if \<not> matchesDatePattern v then today e
          else v)"

definition toLocalDate :: "env \<Rightarrow> string option \<Rightarrow> string option" where
  "toLocalDate e value =
     (case value of
        None \<Rightarrow> None
      | Some v \<Rightarrow>
          if v = [] then None
          else (case newDate e v of
                  None \<Rightarrow> None
                | Some t \<Rightarrow> Some (formatLocalDate e (Some t))))"

definition addDays :: "env \<Rightarrow> string \<Rightarrow> int \<Rightarrow> string" where
  "addDays e dateString days =
     (case newDate e (dateString @ ''T00:00:00'') of
        None \<Rightarrow> formatLocalDate e None
      | Some t \<Rightarrow> formatLocalDate e (setDate e t (getDate e t + days)))"

text \<open>
  addDays with a number of days of any kind. setDate takes the integer part of its
  argument (ToIntegerOrInfinity, which rounds towards zero), and makes the Date invalid
  when the argument is NaN or infinite.
\<close>

definition ToIntegerOrInfinity :: "rat \<Rightarrow> int" where
  "ToIntegerOrInfinity q = (if q < 0 then - \<lfloor>- q\<rfloor> else \<lfloor>q\<rfloor>)"

fun addDaysNumber :: "env \<Rightarrow> string \<Rightarrow> jsnum \<Rightarrow> string" where
  "addDaysNumber e dateString (Num n) = addDays e dateString n"
| "addDaysNumber e dateString (Frac q) =
     (case newDate e (dateString @ ''T00:00:00'') of
        None \<Rightarrow> formatLocalDate e None
      | Some t \<Rightarrow>
          formatLocalDate e (setDate e t (ToIntegerOrInfinity (of_int (getDate e t) + q))))"
| "addDaysNumber e dateString _ = formatLocalDate e None"

definition calculateNextDueDate :: "env \<Rightarrow> string \<Rightarrow> jsnum \<Rightarrow> string option \<Rightarrow> string" where
  "calculateNextDueDate e startDateInput cadenceDays lastCheckinDate =
     (let startDate = normalizeDate e (Some startDateInput)
      in if \<not> isFinite cadenceDays \<or> numLe0 cadenceDays then startDate
         else if lastCheckinDate = None \<or> lastCheckinDate = Some [] then startDate
         else
           let lastDate = normalizeDate e lastCheckinDate;
               daysSinceStart = diffDays e startDate lastDate
           in if daysSinceStart < 0 then startDate
              else if remainderIsZero daysSinceStart cadenceDays
                then addDaysNumber e lastDate cadenceDays
              else
                let intervals = floorDiv daysSinceStart cadenceDays + 1
                in addDaysNumber e startDate (multiply intervals cadenceDays))"


subsection \<open>The record store\<close>

text \<open>
  The tables of db.ts that the scheduling operations read and write, as lists of rows in
  insertion order. Timestamps (created_at) are the strings that \<open>now()\<close> stores. A row
  id is one more than the largest id in the table. Of the constraints of the schema the
  model checks the foreign keys on insertion (the statement throws, and the operation with
  it). The column cadence_days holds an integer, as declared: a cadence length with a
  fractional part, which SQLite would store as it is, is modelled for
  calculateNextDueDate and calculateMissedCount only, not as a stored value.
\<close>

record team =
  t_id :: int
  t_name :: string
  t_created_at :: string

record person =
  p_id :: int
  p_team_id :: int
  p_name :: string
  p_title :: "string option"
  p_created_at :: string

record schedule =
  s_id :: int
  s_team_id :: int
  s_cadence_days :: int
  s_start_date :: string
  s_next_due :: string
  s_created_at :: string

record checkin =
  c_id :: int
  c_team_id :: int
  c_person_id :: int
  c_rating :: int
  c_notes :: "string option"
  c_created_at :: string

record db =
  teams :: "team list"
  people :: "person list"
  checkin_schedules :: "schedule list"
  checkins :: "checkin list"

datatype sqlError = ForeignKeyConstraint

definition nextRowId :: "int list \<Rightarrow> int" where
  "nextRowId ids = foldl max 0 ids + 1"

text \<open>
  \<open>now()\<close> is \<open>new Date().toISOString()\<close>: the UTC fields of the clock, with a year of
  four digits, or of six digits and a sign outside the years 0 to 9999.
\<close>

definition padStart :: "nat \<Rightarrow> string \<Rightarrow> string" where
  "padStart n s = replicate (n - length s) CHR ''0'' @ s"

definition toISOString :: "int \<Rightarrow> string" where
  "toISOString t =
     (let y = YearFromTime t;
          year = (if 0 \<le> y \<and> y \<le> 9999 then padStart 4 (showInt y)
                  else (if y < 0 then ''-'' else ''+'') @ padStart 6 (showInt \<bar>y\<bar>))
      in year @ ''-'' @ padStart 2 (showInt (MonthFromTime t + 1))
           @ ''-'' @ padStart 2 (showInt (DateFromTime t))
           @ ''T'' @ padStart 2 (showInt (t div 3600000 mod 24))
           @ '':'' @ padStart 2 (showInt (t div 60000 mod 60))
           @ '':'' @ padStart 2 (showInt (t div 1000 mod 60))
           @ ''.'' @ padStart 3 (showInt (t mod 1000)) @ ''Z'')"

definition now :: "env \<Rightarrow> string" where
  "now e = toISOString (clock e)"

text \<open>\<open>SELECT MAX(created_at)\<close>: the largest text in byte order, NULL for no row.\<close>

fun maxText :: "string list \<Rightarrow> string option" where
  "maxText [] = None"
| "maxText (x # xs) = Some (foldl max x xs)"

definition getLastTeamCheckinDate :: "env \<Rightarrow> db \<Rightarrow> int \<Rightarrow> string option" where
  "getLastTeamCheckinDate e d teamId =
     toLocalDate e (maxText (map c_created_at (filter (\<lambda>c. c_team_id c = teamId) (checkins d))))"

text \<open>
  The object getSchedule returns: the columns of the row, start_date and next_due
  overwritten, and missed_count.
\<close>

record scheduleView =
  v_id :: int
  v_team_id :: int
  v_cadence_days :: int
  v_start_date :: string
  v_next_due :: string
  v_created_at :: string
  v_missed_count :: int

definition getSchedule :: "env \<Rightarrow> db \<Rightarrow> int \<Rightarrow> scheduleView option" where
  "getSchedule e d teamId =
     (case find (\<lambda>s. s_team_id s = teamId) (checkin_schedules d) of
        None \<Rightarrow> None
      | Some schedule \<Rightarrow>
          let startDate =
                (if s_start_date schedule \<noteq> [] then s_start_date schedule
                 else if s_next_due schedule \<noteq> [] then s_next_due schedule
                 else today e);
              lastCheckinDate = getLastTeamCheckinDate e d teamId;
              nextDue = calculateNextDueDate e startDate (Num (s_cadence_days schedule))
                          lastCheckinDate
          in Some \<lparr>v_id = s_id schedule, v_team_id = s_team_id schedule,
                    v_cadence_days = s_cadence_days schedule, v_start_date = startDate,
                    v_next_due = nextDue, v_created_at = s_created_at schedule,
                    v_missed_count =
                      calculateMissedCount e nextDue (Num (s_cadence_days schedule))
                        (today e)\<rparr>)"

definition upsertSchedule ::
  "env \<Rightarrow> db \<Rightarrow> int \<Rightarrow> int \<Rightarrow> string option \<Rightarrow> sqlError + (string \<times> db)" where
  "upsertSchedule e d teamId cadenceDays startDateInput =
     (let startDate = normalizeDate e startDateInput;
          lastCheckinDate = getLastTeamCheckinDate e d teamId;
          nextDue = calculateNextDueDate e startDate (Num cadenceDays) lastCheckinDate;
          existing = find (\<lambda>s. s_team_id s = teamId) (checkin_schedules d)
      in if existing \<noteq> None
         then Inr (nextDue,
                d\<lparr>checkin_schedules :=
                    map (\<lambda>s. if s_team_id s = teamId
                              then s\<lparr>s_cadence_days := cadenceDays, s_start_date := startDate,
                                     s_next_due := nextDue\<rparr>
                              else s)
                      (checkin_schedules d)\<rparr>)
         else if teamId \<notin> set (map t_id (teams d)) then Inl ForeignKeyConstraint
         else Inr (startDate,
                d\<lparr>checkin_schedules :=
                    checkin_schedules d
                    @ [\<lparr>s_id = nextRowId (map s_id (checkin_schedules d)), s_team_id = teamId,
                         s_cadence_days = cadenceDays, s_start_date = startDate,
                         s_next_due = startDate, s_created_at = now e\<rparr>]\<rparr>))"

definition createCheckin ::
  "env \<Rightarrow> db \<Rightarrow> int \<Rightarrow> int \<Rightarrow> int \<Rightarrow> string option \<Rightarrow> sqlError + (string option \<times> db)"
  where
  "createCheckin e d teamId personId rating notes =
     (if teamId \<notin> set (map t_id (teams d)) \<or> personId \<notin> set (map p_id (people d))
      then Inl ForeignKeyConstraint
      else
        let d1 = d\<lparr>checkins :=
                    checkins d
                    @ [\<lparr>c_id = nextRowId (map c_id (checkins d)), c_team_id = teamId,
                         c_person_id = personId, c_rating = rating, c_notes = notes,
                         c_created_at = now e\<rparr>]\<rparr>
        in case getSchedule e d1 teamId of
             Some schedule \<Rightarrow>
               let nextDue = calculateNextDueDate e (v_start_date schedule)
                               (Num (v_cadence_days schedule)) (Some (today e))
               in Inr (Some nextDue,
                    d1\<lparr>checkin_schedules :=
                         map (\<lambda>s. if s_team_id s = teamId then s\<lparr>s_next_due := nextDue\<rparr>
                                   else s)
                           (checkin_schedules d1)\<rparr>)
           | None \<Rightarrow> Inr (None, d1))"

text \<open>
  listScheduledTeams: the schedule rows joined with their teams, in the order of the team
  names. team_id is unique in checkin_schedules and id in teams, so that each group of
  the query is one pair of a team and its schedule row. The query leaves the order of
  teams of the same name open; SQLite forms the groups in the order of the team ids and
  keeps that order among equal names.
\<close>

record scheduledTeam =
  st_team_id :: int
  st_team_name :: string
  st_start_date :: string
  st_cadence_days :: int
  st_people_count :: int
  st_last_checkin_at :: "string option"

definition listScheduledTeams :: "db \<Rightarrow> scheduledTeam list" where
  "listScheduledTeams d =
     sort_key st_team_name (sort_key st_team_id
       (concat (map (\<lambda>s.
          map (\<lambda>t.
            \<lparr>st_team_id = t_id t, st_team_name = t_name t, st_start_date = s_start_date s,
              st_cadence_days = s_cadence_days s,
              st_people_count =
                int (length (remdups (map p_id (filter (\<lambda>p. p_team_id p = t_id t) (people d))))),
              st_last_checkin_at =
                maxText (map c_created_at (filter (\<lambda>c. c_team_id c = t_id t) (checkins d)))\<rparr>)
            (filter (\<lambda>t. t_id t = s_team_id s) (teams d)))
          (checkin_schedules d))))"

text \<open>The next due date that both listings recompute for a row.\<close>

definition rowNextDue :: "env \<Rightarrow> scheduledTeam \<Rightarrow> string" where
  "rowNextDue e row =
     calculateNextDueDate e (st_start_date row) (Num (st_cadence_days row))
       (toLocalDate e (st_last_checkin_at row))"

record dueCheckin =
  d_row :: scheduledTeam
  d_next_due :: string
  d_missed_count :: int

record upcomingCheckin =
  u_row :: scheduledTeam
  u_next_due :: string

text \<open>
  The comparison function of both sorts is localeCompare; the model takes it to order
  date strings as \<open>\<le>\<close> does (by code units). Array.prototype.sort is stable.
\<close>

definition listDueCheckins :: "env \<Rightarrow> db \<Rightarrow> dueCheckin list" where
  "listDueCheckins e d =
     (let referenceDate = today e;
          rows = listScheduledTeams d
      in sort_key d_next_due
           (filter (\<lambda>row. d_next_due row \<le> referenceDate)
              (map (\<lambda>row.
                 \<lparr>d_row = row, d_next_due = rowNextDue e row,
                   d_missed_count =
                     calculateMissedCount e (rowNextDue e row) (Num (st_cadence_days row))
                       referenceDate\<rparr>)
               rows)))"

text \<open>\<open>slice(0, end)\<close>: a negative end counts from the end of the array.\<close>

definition slice0 :: "'a list \<Rightarrow> int \<Rightarrow> 'a list" where
  "slice0 xs en = (if en < 0 then take (nat (int (length xs) + en)) xs else take (nat en) xs)"

text \<open>The limit is an optional argument, 3 when it is missing.\<close>

definition listUpcomingCheckins :: "env \<Rightarrow> db \<Rightarrow> int option \<Rightarrow> upcomingCheckin list" where
  "listUpcomingCheckins e d limit =
     (let referenceDate = today e;
          rows = listScheduledTeams d
      in slice0
           (sort_key u_next_due
              (filter (\<lambda>row. u_next_due row > referenceDate)
                 (map (\<lambda>row. \<lparr>u_row = row, u_next_due = rowNextDue e row\<rparr>) rows)))
           (case limit of None \<Rightarrow> 3 | Some n \<Rightarrow> n))"

subsection \<open>Canonical dates, valid cadence lengths and a host in UTC\<close>

text \<open>
  A canonical date is a string of the form YYYY-MM-DD that names a day of the calendar.
\<close>

definition canonical :: "string \<Rightarrow> bool" where
  "canonical s = (matchesDatePattern s \<and> parseDay s \<noteq> None)"

text \<open>
  The text that formatLocalDate prints for a Date whose local time falls on day number
  \<open>n\<close> (days since 1 January 1970).
\<close>

definition formatDay :: "int \<Rightarrow> string" where
  "formatDay n =
     showInt (YearFromDay n) @ ''-'' @ padStart2 (showInt (MonthFromDay n + 1)) @ ''-''
       @ padStart2 (showInt (DateFromDay n))"

text \<open>
  The days of the years 1000 to 9999, for which formatLocalDate prints a year of four
  digits and so a canonical date.
\<close>

definition fourDigitYears :: "int \<Rightarrow> bool" where
  "fourDigitYears n = (DayFromYear 1000 \<le> n \<and> n < DayFromYear 10000)"

text \<open>The day number a canonical date names, and 0 for any other string.\<close>

definition dayNumber :: "string \<Rightarrow> int" where
  "dayNumber s = (case parseDay s of None \<Rightarrow> 0 | Some n \<Rightarrow> n)"

fun positiveInteger :: "jsnum \<Rightarrow> bool" where
  "positiveInteger (Num n) = (0 < n)"
| "positiveInteger (Frac q) = (0 < q \<and> q = of_int \<lfloor>q\<rfloor>)"
| "positiveInteger _ = False"

text \<open>The numbers that pass the guard of the code: finite and greater than 0.\<close>

fun positiveNumber :: "jsnum \<Rightarrow> bool" where
  "positiveNumber (Num n) = (0 < n)"
| "positiveNumber (Frac q) = (0 < q)"
| "positiveNumber _ = False"

text \<open>A host whose local time is UTC, at noon of 3 November 2026.\<close>

definition utcHost :: env where
  "utcHost = \<lparr>LocalTZA = (\<lambda>t b. 0), clock = 1793707200000\<rparr>"

text \<open>
  A host in New York, with the daylight-saving rule of the year 2024 only: local time is
  UTC-5, and UTC-4 from 10 March 2024, 02:00 local time (07:00 UTC), to 3 November 2024,
  02:00 local time (06:00 UTC). A local time that the change skips or repeats is read
  with the offset from before the change. The clock stands at noon, local time, of
  1 July 2024.
\<close>

definition newYorkHost :: env where
  "newYorkHost =
     \<lparr>LocalTZA = (\<lambda>t isUTC.
          if isUTC
          then (if 1710054000000 \<le> t \<and> t < 1730613600000 then - 14400000 else - 18000000)
          else (if 1710039600000 \<le> t \<and> t < 1730599200000 then - 14400000 else - 18000000)),
       clock = 1719849600000\<rparr>"

text \<open>
  A record store for the examples: two teams, one person, a weekly schedule for the first
  team, anchored on 1 January 2024, a schedule of 30 days for the second, and one check-in
  of the first team on 10 January 2024.
\<close>

definition exampleDb :: db where
  "exampleDb =
     \<lparr>teams =
        [\<lparr>t_id = 1, t_name = ''Core'', t_created_at = ''2024-01-01T09:00:00.000Z''\<rparr>,
         \<lparr>t_id = 2, t_name = ''Apps'', t_created_at = ''2024-01-01T09:00:00.000Z''\<rparr>],
      people =
        [\<lparr>p_id = 1, p_team_id = 1, p_name = ''Ada'', p_title = None,
           p_created_at = ''2024-01-01T09:00:00.000Z''\<rparr>],
      checkin_schedules =
        [\<lparr>s_id = 1, s_team_id = 1, s_cadence_days = 7, s_start_date = ''2024-01-01'',
           s_next_due = ''2024-01-01'', s_created_at = ''2024-01-01T09:00:00.000Z''\<rparr>,
         \<lparr>s_id = 2, s_team_id = 2, s_cadence_days = 30, s_start_date = ''2026-12-01'',
           s_next_due = ''2026-12-01'', s_created_at = ''2024-01-01T09:00:00.000Z''\<rparr>],
      checkins =
        [\<lparr>c_id = 1, c_team_id = 1, c_person_id = 1, c_rating = 3, c_notes = None,
           c_created_at = ''2024-01-10T12:00:00.000Z''\<rparr>]\<rparr>"

section \<open>Parsing canonical dates\<close>

lemmas parse_eval = parseDay_def parseDayLenient_def parseDatePart_def isDigit_def
  digitsVal_def digitVal_def
  daysInMonth_def monthStart_def MakeDay_def DayFromYear_def InLeapYear_def DaysInYear_def

lemma length_10_E:
  assumes "length s = 10"
  obtains a b c d e f g h i j where "s = [a, b, c, d, e, f, g, h, i, j]"
  using assms by (auto simp add: eval_nat_numeral length_Suc_conv)

lemma isDigit_not_T: "isDigit c \<Longrightarrow> c \<noteq> CHR ''T''"
  by (auto simp add: isDigit_def)

lemma pattern_list:
  "matchesDatePattern [a, b, c, d, e, f, g, h, i, j] =
     (isDigit a \<and> isDigit b \<and> isDigit c \<and> isDigit d \<and> e = CHR ''-''
      \<and> isDigit f \<and> isDigit g \<and> h = CHR ''-'' \<and> isDigit i \<and> isDigit j)"
  by (simp add: matchesDatePattern_def)

lemma pattern_no_T:
  "matchesDatePattern s \<Longrightarrow> takeWhile (\<lambda>c. c \<noteq> CHR ''T'') s = s"
proof -
  assume m: "matchesDatePattern s"
  then have len: "length s = 10" by (simp add: matchesDatePattern_def)
  obtain a b c d e f g h i j where s: "s = [a, b, c, d, e, f, g, h, i, j]"
    by (rule length_10_E [OF len])
  from m have "isDigit a \<and> isDigit b \<and> isDigit c \<and> isDigit d \<and> e = CHR ''-''
      \<and> isDigit f \<and> isDigit g \<and> h = CHR ''-'' \<and> isDigit i \<and> isDigit j"
    unfolding s pattern_list .
  then show ?thesis unfolding s
    by (simp add: isDigit_not_T)
qed

lemma parseTimePart_midnight: "parseTimePart ''00:00:00'' = Some 0"
  by (simp add: parseTimePart_def isDigit_def digitsVal_def digitVal_def MakeTime_def)

lemma takeWhile_append_T:
  "takeWhile (\<lambda>c. c \<noteq> CHR ''T'') s = s \<Longrightarrow>
   takeWhile (\<lambda>c. c \<noteq> CHR ''T'') (s @ ''T00:00:00'') = s
   \<and> dropWhile (\<lambda>c. c \<noteq> CHR ''T'') (s @ ''T00:00:00'') = ''T00:00:00''"
proof -
  assume a: "takeWhile (\<lambda>c. c \<noteq> CHR ''T'') s = s"
  then have all: "\<forall>c \<in> set s. c \<noteq> CHR ''T''"
    by (simp add: takeWhile_eq_all_conv)
  then show ?thesis by (simp add: takeWhile_append2 dropWhile_append2)
qed

lemma parseDay_lenient: "parseDay s = Some n \<Longrightarrow> parseDayLenient s = Some n"
proof -
  have b: "1 \<le> m \<Longrightarrow> m \<le> 12 \<Longrightarrow> daysInMonth y (m - 1) \<le> 31" for y m
    by (simp add: daysInMonth_def monthStart_def InLeapYear_def)
  assume a: "parseDay s = Some n"
  then obtain y m d where pp: "parseDatePart s = Some (y, m, d)"
    by (cases "parseDatePart s") (auto simp add: parseDay_def)
  from a have v: "1 \<le> m \<and> m \<le> 12 \<and> 1 \<le> d \<and> d \<le> daysInMonth y (m - 1)"
    and n: "n = MakeDay y (m - 1) d"
    by (simp_all add: parseDay_def pp split: if_splits)
  have "daysInMonth y (m - 1) \<le> 31" using v b by simp
  with v n show ?thesis by (simp add: parseDayLenient_def pp)
qed

lemma parseDate_lenient:
  "matchesDatePattern s \<Longrightarrow>
   parseDate e s = (case parseDayLenient s of None \<Rightarrow> None
                    | Some day \<Rightarrow> TimeClip (UTC e (MakeDate day 0)))"
  using takeWhile_append_T [OF pattern_no_T, of s]
  by (simp add: parseDate_def newDate_def parseTimeZ_def parseTimePart_midnight
      split: option.splits)

lemma parseDate_pattern:
  "matchesDatePattern s \<Longrightarrow> parseDay s \<noteq> None \<Longrightarrow>
   parseDate e s = (case parseDay s of None \<Rightarrow> None
                    | Some day \<Rightarrow> TimeClip (UTC e (MakeDate day 0)))"
  using parseDay_lenient [of s] by (auto simp add: parseDate_lenient)

text \<open>The engine reads 30 February 2024 as 1 March 2024; it is not a canonical date.\<close>

lemma parseDayLenient_carries:
  "parseDayLenient ''2024-02-30'' = parseDayLenient ''2024-03-01''"
  "parseDay ''2024-02-30'' = None"
  by (simp_all add: parse_eval)

lemma canonical_nonempty: "canonical s \<Longrightarrow> s \<noteq> []"
  by (auto simp add: canonical_def matchesDatePattern_def)

lemma normalizeDate_canonical: "canonical s \<Longrightarrow> normalizeDate e (Some s) = s"
  by (auto simp add: normalizeDate_def canonical_def matchesDatePattern_def)

lemma parseDay_2024_01_01: "parseDay ''2024-01-01'' = Some 19723"
  by (simp add: parse_eval)

lemma parseDay_2024_01_10: "parseDay ''2024-01-10'' = Some 19732"
  by (simp add: parse_eval)

lemma canonical_2024_01_01: "canonical ''2024-01-01''"
  by (simp add: canonical_def parseDay_2024_01_01) (simp add: matchesDatePattern_def isDigit_def)

lemma canonical_2024_01_10: "canonical ''2024-01-10''"
  by (simp add: canonical_def parseDay_2024_01_10) (simp add: matchesDatePattern_def isDigit_def)

lemma diffDays_utc_9: "diffDays utcHost ''2024-01-01'' ''2024-01-10'' = 9"
  using canonical_2024_01_01 canonical_2024_01_10
  by (simp add: diffDays_def canonical_def parseDate_pattern parseDay_2024_01_01
      parseDay_2024_01_10 TimeClip_def UTC_def MakeDate_def msPerDay_def utcHost_def)

section \<open>The calendar: years, months and days\<close>

lemma yearDown_le: "DayFromYear (yearDown d y) \<le> d"
proof (induction d y rule: yearDown.induct)
  case (1 d y)
  show ?case
  proof (cases "d < DayFromYear y")
    case True
    then show ?thesis using 1 by (subst yearDown.simps) simp
  next
    case False
    then show ?thesis by (subst yearDown.simps) simp
  qed
qed

lemma yearUp_gt: "d < DayFromYear (yearUp d y + 1)"
proof (induction d y rule: yearUp.induct)
  case (1 d y)
  show ?case
  proof (cases "DayFromYear (y + 1) \<le> d")
    case True
    then show ?thesis using 1 by (subst yearUp.simps) simp
  next
    case False
    then show ?thesis by (subst yearUp.simps) simp
  qed
qed

lemma yearUp_le: "DayFromYear y \<le> d \<Longrightarrow> DayFromYear (yearUp d y) \<le> d"
proof (induction d y rule: yearUp.induct)
  case (1 d y)
  show ?case
  proof (cases "DayFromYear (y + 1) \<le> d")
    case True
    then show ?thesis using 1 by (subst yearUp.simps) simp
  next
    case False
    then show ?thesis using 1 by (subst yearUp.simps) simp
  qed
qed

lemma DayFromYear_add: "DayFromYear y < DayFromYear (y + 1 + int k)"
proof (induction k)
  case 0
  then show ?case using DayFromYear_less_Suc [of y] by simp
next
  case (Suc k)
  have "DayFromYear (y + 1 + int k) < DayFromYear (y + 1 + int k + 1)"
    by (rule DayFromYear_less_Suc)
  moreover have "y + 1 + int k + 1 = y + 1 + int (Suc k)" by simp
  ultimately show ?case using Suc by simp
qed

lemma DayFromYear_strict_mono: "y < y' \<Longrightarrow> DayFromYear y < DayFromYear y'"
proof -
  assume "y < y'"
  then have "y' = y + 1 + int (nat (y' - y - 1))" by simp
  then show ?thesis using DayFromYear_add [of y "nat (y' - y - 1)"] by simp
qed

lemma DayFromYear_mono: "y \<le> y' \<Longrightarrow> DayFromYear y \<le> DayFromYear y'"
  using DayFromYear_strict_mono [of y y'] by (cases "y = y'") auto

lemma YearFromDay_bounds:
  "DayFromYear (YearFromDay d) \<le> d \<and> d < DayFromYear (YearFromDay d + 1)"
  unfolding YearFromDay_def
  using yearUp_gt [of d "yearDown d (1970 + d div 365)"]
    yearUp_le [OF yearDown_le, of d "1970 + d div 365"]
  by simp

lemma YearFromDay_unique:
  assumes "DayFromYear y \<le> d" and "d < DayFromYear (y + 1)"
  shows "YearFromDay d = y"
proof (rule ccontr)
  assume ne: "YearFromDay d \<noteq> y"
  note b = YearFromDay_bounds [of d]
  show False
  proof (cases "YearFromDay d < y")
    case True
    then have "DayFromYear (YearFromDay d + 1) \<le> DayFromYear y"
      by (intro DayFromYear_mono) simp
    with b assms show False by linarith
  next
    case False
    with ne have "y + 1 \<le> YearFromDay d" by simp
    then have "DayFromYear (y + 1) \<le> DayFromYear (YearFromDay d)"
      by (rule DayFromYear_mono)
    with b assms show False by linarith
  qed
qed

lemma DayWithinYear_bounds:
  "0 \<le> DayWithinYear d \<and> DayWithinYear d < 365 + InLeapYear (YearFromDay d)"
  using YearFromDay_bounds [of d] DayFromYear_Suc [of "YearFromDay d"]
    DaysInYear_cases [of "YearFromDay d"]
  by (auto simp add: DayWithinYear_def InLeapYear_def)

lemma InLeapYear_cases: "InLeapYear y = 0 \<or> InLeapYear y = 1"
  by (simp add: InLeapYear_def)

lemma DaysInYear_InLeapYear: "DaysInYear y = 365 + InLeapYear y"
  using DaysInYear_cases [of y] by (auto simp add: InLeapYear_def)

lemma monthOfDayWithinYear_range:
  "0 \<le> monthOfDayWithinYear l n \<and> monthOfDayWithinYear l n \<le> 11"
  by (simp add: monthOfDayWithinYear_def)

lemma monthStart_le:
  assumes "0 \<le> n"
  shows "monthStart l (monthOfDayWithinYear l n) \<le> n"
  using assms by (simp add: monthOfDayWithinYear_def monthStart_def)

lemma monthStart_gt:
  assumes "n < 365 + l"
  shows "n < monthStart l (monthOfDayWithinYear l n + 1)"
  using assms by (simp add: monthOfDayWithinYear_def monthStart_def)

lemma month_cases:
  "0 \<le> m \<Longrightarrow> m \<le> 11 \<Longrightarrow>
   m = 0 \<or> m = 1 \<or> m = 2 \<or> m = 3 \<or> m = 4 \<or> m = 5 \<or> m = 6 \<or> m = 7 \<or> m = 8
   \<or> m = 9 \<or> m = 10 \<or> m = (11::int)"
  by arith

lemma monthOfDayWithinYear_unique:
  assumes "l = 0 \<or> l = 1" and "0 \<le> m" and "m \<le> 11"
    and "monthStart l m \<le> n" and "n < monthStart l (m + 1)"
  shows "monthOfDayWithinYear l n = m"
  using month_cases [OF assms(2,3)] assms(1,4,5)
  by (elim disjE) (simp_all add: monthOfDayWithinYear_def monthStart_def)

lemma MakeDay_month:
  "0 \<le> m \<Longrightarrow> m \<le> 11 \<Longrightarrow>
   MakeDay y m dt = DayFromYear y + monthStart (InLeapYear y) m + dt - 1"
  by (simp add: MakeDay_def div_pos_pos_trivial mod_pos_pos_trivial)

lemma monthStart_bounds:
  assumes "l = 0 \<or> l = 1" and "0 \<le> m" and "m \<le> 11"
  shows "0 \<le> monthStart l m \<and> monthStart l (m + 1) \<le> 365 + l"
  using month_cases [OF assms(2,3)] assms(1)
  by (elim disjE) (simp_all add: monthStart_def)

lemma MakeDay_of_civil:
  "MakeDay (YearFromDay n) (MonthFromDay n) (DateFromDay n + k) = n + k"
proof -
  have r: "0 \<le> MonthFromDay n \<and> MonthFromDay n \<le> 11"
    unfolding MonthFromDay_def by (rule monthOfDayWithinYear_range)
  show ?thesis
    using r by (simp add: MakeDay_month DateFromDay_def DayWithinYear_def)
qed

lemma DateFromDay_bounds:
  "1 \<le> DateFromDay n \<and> DateFromDay n \<le> daysInMonth (YearFromDay n) (MonthFromDay n)"
  using DayWithinYear_bounds [of n]
    monthStart_le [of "DayWithinYear n" "InLeapYear (YearFromDay n)"]
    monthStart_gt [of "DayWithinYear n" "InLeapYear (YearFromDay n)"]
  by (simp add: DateFromDay_def MonthFromDay_def daysInMonth_def)

lemma civil_of_MakeDay:
  assumes m: "0 \<le> m" "m \<le> 11" and dt: "1 \<le> dt" "dt \<le> daysInMonth y m"
  shows "YearFromDay (MakeDay y m dt) = y"
    and "MonthFromDay (MakeDay y m dt) = m"
    and "DateFromDay (MakeDay y m dt) = dt"
proof -
  define l where "l = InLeapYear y"
  define n where "n = monthStart l m + dt - 1"
  have l: "l = 0 \<or> l = 1" unfolding l_def by (rule InLeapYear_cases)
  note b = monthStart_bounds [OF l m]
  have n0: "monthStart l m \<le> n" using dt by (simp add: n_def)
  have n1: "n < monthStart l (m + 1)" using dt by (simp add: n_def daysInMonth_def l_def)
  have md: "MakeDay y m dt = DayFromYear y + n"
    using m by (simp add: MakeDay_month n_def l_def)
  have "DayFromYear y \<le> DayFromYear y + n" using n0 b by linarith
  moreover have "DayFromYear y + n < DayFromYear (y + 1)"
    using n1 b by (simp add: DayFromYear_Suc DaysInYear_InLeapYear l_def)
  ultimately show y: "YearFromDay (MakeDay y m dt) = y"
    unfolding md by (rule YearFromDay_unique)
  have dwy: "DayWithinYear (MakeDay y m dt) = n"
    unfolding DayWithinYear_def y by (simp add: md)
  show mm: "MonthFromDay (MakeDay y m dt) = m"
    unfolding MonthFromDay_def y dwy
    using monthOfDayWithinYear_unique [OF l m n0 n1] by (simp add: l_def)
  show "DateFromDay (MakeDay y m dt) = dt"
    unfolding DateFromDay_def mm y dwy by (simp add: n_def l_def)
qed

section \<open>Printing and reading numbers\<close>

lemma isDigit_digitChar: "k < 10 \<Longrightarrow> isDigit (digitChar k)"
  by (simp add: isDigit_def digitChar_def)

lemma digitVal_digitChar: "k < 10 \<Longrightarrow> digitVal (digitChar k) = int k"
  by (simp add: digitVal_def digitChar_def)

lemma digitsVal_snoc: "digitsVal (xs @ [c]) = 10 * digitsVal xs + digitVal c"
  by (simp add: digitsVal_def)

lemma showNat_digits: "list_all isDigit (showNat n)"
proof (induction n rule: showNat.induct)
  case (1 n)
  show ?case
  proof (cases "n < 10")
    case True
    then show ?thesis by (subst showNat.simps) (simp add: isDigit_digitChar)
  next
    case False
    then show ?thesis using 1 by (subst showNat.simps) (simp add: isDigit_digitChar)
  qed
qed

lemma digitsVal_showNat: "digitsVal (showNat n) = int n"
proof (induction n rule: showNat.induct)
  case (1 n)
  show ?case
  proof (cases "n < 10")
    case True
    then show ?thesis
      by (subst showNat.simps) (simp add: digitsVal_def digitVal_digitChar)
  next
    case False
    have "10 * int (n div 10) + int (n mod 10) = int n"
      by (simp add: zdiv_int zmod_int)
    then show ?thesis using False 1
      by (subst showNat.simps) (simp add: digitsVal_snoc digitVal_digitChar)
  qed
qed

lemma length_showNat_1: "n < 10 \<Longrightarrow> length (showNat n) = 1"
  by (subst showNat.simps) simp

lemma length_showNat_2: "10 \<le> n \<Longrightarrow> n < 100 \<Longrightarrow> length (showNat n) = 2"
  by (subst showNat.simps) (simp add: length_showNat_1)

lemma length_showNat_3: "100 \<le> n \<Longrightarrow> n < 1000 \<Longrightarrow> length (showNat n) = 3"
  by (subst showNat.simps) (simp add: length_showNat_2)

lemma length_showNat_4: "1000 \<le> n \<Longrightarrow> n < 10000 \<Longrightarrow> length (showNat n) = 4"
  by (subst showNat.simps) (simp add: length_showNat_3)

lemma showInt_year:
  assumes "1000 \<le> y" and "y \<le> 9999"
  shows "length (showInt y) = 4 \<and> list_all isDigit (showInt y) \<and> digitsVal (showInt y) = y"
  using assms by (simp add: showInt_def length_showNat_4 showNat_digits digitsVal_showNat)

lemma padStart2_number:
  assumes "0 \<le> k" and "k < 100"
  shows "length (padStart2 (showInt k)) = 2 \<and> list_all isDigit (padStart2 (showInt k))
         \<and> digitsVal (padStart2 (showInt k)) = k"
proof (cases "k < 10")
  case True
  then have len: "length (showNat (nat k)) = 1" using assms by (simp add: length_showNat_1)
  have z: "isDigit CHR ''0''" by (simp add: isDigit_def)
  have "digitsVal (CHR ''0'' # showNat (nat k)) = digitsVal (showNat (nat k))"
    by (simp add: digitsVal_def digitVal_def)
  then show ?thesis using assms len z
    by (simp add: padStart2_def showInt_def showNat_digits digitsVal_showNat)
next
  case False
  then have len: "length (showNat (nat k)) = 2" using assms by (simp add: length_showNat_2)
  then show ?thesis using assms
    by (simp add: padStart2_def showInt_def showNat_digits digitsVal_showNat)
qed

section \<open>Printing and reading dates\<close>

lemma formatLocalDate_Some: "formatLocalDate e (Some t) = formatDay (Day (LocalTime e t))"
  by (simp add: formatLocalDate_def formatDay_def Let_def YearFromTime_def MonthFromTime_def
      DateFromTime_def)

lemma date_text_parts:
  assumes "length ys = 4" and "length ms = 2" and "length ds = 2"
  shows "length (ys @ CHR ''-'' # ms @ CHR ''-'' # ds) = 10"
    and "take 4 (ys @ CHR ''-'' # ms @ CHR ''-'' # ds) = ys"
    and "(ys @ CHR ''-'' # ms @ CHR ''-'' # ds) ! 4 = CHR ''-''"
    and "take 2 (drop 5 (ys @ CHR ''-'' # ms @ CHR ''-'' # ds)) = ms"
    and "(ys @ CHR ''-'' # ms @ CHR ''-'' # ds) ! 7 = CHR ''-''"
    and "drop 8 (ys @ CHR ''-'' # ms @ CHR ''-'' # ds) = ds"
  using assms by (simp_all add: nth_append)

lemma parseDatePart_text:
  assumes "length ys = 4" and "length ms = 2" and "length ds = 2"
    and "list_all isDigit ys" and "list_all isDigit ms" and "list_all isDigit ds"
  shows "matchesDatePattern (ys @ CHR ''-'' # ms @ CHR ''-'' # ds)"
    and "parseDatePart (ys @ CHR ''-'' # ms @ CHR ''-'' # ds)
         = Some (digitsVal ys, digitsVal ms, digitsVal ds)"
proof -
  define s where "s = ys @ CHR ''-'' # ms @ CHR ''-'' # ds"
  note p = date_text_parts [OF assms(1-3), folded s_def]
  show "matchesDatePattern (ys @ CHR ''-'' # ms @ CHR ''-'' # ds)"
    unfolding s_def [symmetric] matchesDatePattern_def using assms(4-6) by (simp add: p)
  show "parseDatePart (ys @ CHR ''-'' # ms @ CHR ''-'' # ds)
         = Some (digitsVal ys, digitsVal ms, digitsVal ds)"
    unfolding s_def [symmetric] parseDatePart_def using assms(4-6) by (simp add: p)
qed

lemma daysInMonth_le_31:
  assumes "0 \<le> m" and "m \<le> 11"
  shows "daysInMonth y m \<le> 31"
  using month_cases [OF assms] InLeapYear_cases [of y]
  by (elim disjE) (simp_all add: daysInMonth_def monthStart_def)

lemma parseDay_formatDay:
  assumes "1000 \<le> YearFromDay n" and "YearFromDay n \<le> 9999"
  shows "parseDay (formatDay n) = Some n" and "canonical (formatDay n)"
proof -
  note mr = monthOfDayWithinYear_range [of "InLeapYear (YearFromDay n)" "DayWithinYear n",
      folded MonthFromDay_def]
  note db = DateFromDay_bounds [of n]
  have d31: "DateFromDay n \<le> 31"
    using db daysInMonth_le_31 [of "MonthFromDay n" "YearFromDay n"] mr by linarith
  note y = showInt_year [OF assms]
  have m: "length (padStart2 (showInt (MonthFromDay n + 1))) = 2
      \<and> list_all isDigit (padStart2 (showInt (MonthFromDay n + 1)))
      \<and> digitsVal (padStart2 (showInt (MonthFromDay n + 1))) = MonthFromDay n + 1"
    using mr by (intro padStart2_number) simp_all
  have d: "length (padStart2 (showInt (DateFromDay n))) = 2
      \<and> list_all isDigit (padStart2 (showInt (DateFromDay n)))
      \<and> digitsVal (padStart2 (showInt (DateFromDay n))) = DateFromDay n"
    using db d31 by (intro padStart2_number) simp_all
  have f: "formatDay n = showInt (YearFromDay n) @ CHR ''-''
      # padStart2 (showInt (MonthFromDay n + 1)) @ CHR ''-''
      # padStart2 (showInt (DateFromDay n))"
    by (simp add: formatDay_def)
  have pat: "matchesDatePattern (formatDay n)"
    unfolding f using y m d by (intro parseDatePart_text) simp_all
  have pp: "parseDatePart (formatDay n)
      = Some (YearFromDay n, MonthFromDay n + 1, DateFromDay n)"
    unfolding f using y m d by (subst parseDatePart_text) simp_all
  show p: "parseDay (formatDay n) = Some n"
    using mr db MakeDay_of_civil [of n 0] by (simp add: parseDay_def pp)
  show "canonical (formatDay n)"
    by (simp add: canonical_def pat p)
qed

section \<open>A host with a fixed offset from UTC\<close>

lemma fourDigitYears_year:
  assumes "fourDigitYears n"
  shows "1000 \<le> YearFromDay n" and "YearFromDay n \<le> 9999"
proof -
  note b = YearFromDay_bounds [of n]
  show "1000 \<le> YearFromDay n"
  proof (rule ccontr)
    assume "\<not> 1000 \<le> YearFromDay n"
    then have "DayFromYear (YearFromDay n + 1) \<le> DayFromYear 1000"
      by (intro DayFromYear_mono) simp
    with b assms show False by (simp add: fourDigitYears_def)
  qed
  show "YearFromDay n \<le> 9999"
  proof (rule ccontr)
    assume "\<not> YearFromDay n \<le> 9999"
    then have "DayFromYear 10000 \<le> DayFromYear (YearFromDay n)"
      by (intro DayFromYear_mono) simp
    with b assms show False by (simp add: fourDigitYears_def)
  qed
qed

lemma digitsVal_4:
  assumes "length xs = 4" and "list_all isDigit xs"
  shows "0 \<le> digitsVal xs \<and> digitsVal xs \<le> 9999"
proof -
  from assms(1) obtain a b c d where xs: "xs = [a, b, c, d]"
    by (auto simp add: eval_nat_numeral length_Suc_conv)
  from assms(2) show ?thesis unfolding xs
    by (simp add: digitsVal_def digitVal_def isDigit_def)
qed

lemma canonical_parse:
  assumes "canonical s"
  obtains y m d where "parseDay s = Some (MakeDay y (m - 1) d)"
    and "0 \<le> y" and "y \<le> 9999" and "1 \<le> m" and "m \<le> 12"
    and "1 \<le> d" and "d \<le> daysInMonth y (m - 1)"
    and "y = digitsVal (take 4 s)" and "m = digitsVal (take 2 (drop 5 s))"
    and "d = digitsVal (drop 8 s)"
proof -
  from assms have pat: "matchesDatePattern s" and ne: "parseDay s \<noteq> None"
    by (simp_all add: canonical_def)
  from pat have pp: "parseDatePart s = Some (digitsVal (take 4 s),
      digitsVal (take 2 (drop 5 s)), digitsVal (drop 8 s))"
    by (simp add: matchesDatePattern_def parseDatePart_def)
  from pat have "length (take 4 s) = 4" "list_all isDigit (take 4 s)"
    by (simp_all add: matchesDatePattern_def)
  then have y: "0 \<le> digitsVal (take 4 s) \<and> digitsVal (take 4 s) \<le> 9999"
    by (rule digitsVal_4)
  from ne show ?thesis
    using y by (intro that [of "digitsVal (take 4 s)" "digitsVal (take 2 (drop 5 s))"
          "digitsVal (drop 8 s)"])
      (simp_all add: parseDay_def pp split: if_splits)
qed

lemma DayFromYear_0: "DayFromYear 0 = - 719528"
  by (simp add: DayFromYear_def)

lemma DayFromYear_1000: "DayFromYear 1000 = - 354285"
  by (simp add: DayFromYear_def)

lemma DayFromYear_10000: "DayFromYear 10000 = 2932897"
  by (simp add: DayFromYear_def)

lemma canonical_day_range:
  assumes "canonical s"
  shows "parseDay s = Some (dayNumber s)" and "- 719528 \<le> dayNumber s"
    and "dayNumber s < 2932897"
proof -
  from assms obtain y m d where p: "parseDay s = Some (MakeDay y (m - 1) d)"
    and y: "0 \<le> y" "y \<le> 9999" and m: "1 \<le> m" "m \<le> 12"
    and d: "1 \<le> d" "d \<le> daysInMonth y (m - 1)"
    by (rule canonical_parse)
  show "parseDay s = Some (dayNumber s)" by (simp add: dayNumber_def p)
  have yy: "YearFromDay (MakeDay y (m - 1) d) = y"
    using m d by (intro civil_of_MakeDay) simp_all
  note b = YearFromDay_bounds [of "MakeDay y (m - 1) d", unfolded yy]
  have "DayFromYear 0 \<le> DayFromYear y" using y by (intro DayFromYear_mono)
  moreover have "DayFromYear (y + 1) \<le> DayFromYear 10000"
    using y by (intro DayFromYear_mono) simp
  ultimately show "- 719528 \<le> dayNumber s" and "dayNumber s < 2932897"
    using b by (simp_all add: dayNumber_def p DayFromYear_0 DayFromYear_10000)
qed

lemma Day_midnight: "Day (n * msPerDay) = n" "TimeWithinDay (n * msPerDay) = 0"
  by (simp_all add: Day_def TimeWithinDay_def msPerDay_def)

lemma fixed_LocalTime:
  assumes "LocalTZA e = (\<lambda>t b. c)"
  shows "LocalTime e t = t + c" and "UTC e t = t - c"
  by (simp_all add: LocalTime_def UTC_def assms)

lemma parseDate_fixed:
  assumes tz: "LocalTZA e = (\<lambda>t b. c)" and c: "\<bar>c\<bar> < msPerDay" and s: "canonical s"
  shows "parseDate e s = Some (dayNumber s * msPerDay - c)"
proof -
  note r = canonical_day_range [OF s]
  have "\<bar>dayNumber s * msPerDay - c\<bar> \<le> 8640000000000000"
    using r(2,3) c unfolding msPerDay_def by linarith
  then show ?thesis
    using s by (simp add: parseDate_pattern canonical_def r(1) fixed_LocalTime [OF tz]
        MakeDate_def TimeClip_def)
qed

lemma diffDays_fixed:
  assumes tz: "LocalTZA e = (\<lambda>t b. c)" and c: "\<bar>c\<bar> < msPerDay"
    and "canonical s1" and "canonical s2"
  shows "diffDays e s1 s2 = dayNumber s2 - dayNumber s1"
proof -
  have "dayNumber s2 * msPerDay - c - (dayNumber s1 * msPerDay - c)
      = (dayNumber s2 - dayNumber s1) * 86400000"
    by (simp add: msPerDay_def algebra_simps)
  then show ?thesis
    by (simp add: diffDays_def parseDate_fixed [OF tz c] assms(3,4))
qed

lemma addDays_fixed:
  assumes tz: "LocalTZA e = (\<lambda>t b. c)" and c: "\<bar>c\<bar> < msPerDay" and s: "canonical s"
    and r: "\<bar>(dayNumber s + k) * msPerDay - c\<bar> \<le> 8640000000000000"
  shows "addDays e s k = formatDay (dayNumber s + k)"
proof -
  define t where "t = dayNumber s * msPerDay - c"
  have nd: "newDate e (s @ ''T00:00:00'') = Some t"
    using parseDate_fixed [OF tz c s] by (simp add: parseDate_def t_def)
  have lt: "LocalTime e t = dayNumber s * msPerDay"
    by (simp add: fixed_LocalTime [OF tz] t_def)
  have gd: "getDate e t = DateFromDay (dayNumber s)"
    by (simp add: getDate_def lt DateFromTime_def Day_midnight)
  have sd: "setDate e t (getDate e t + k) = Some ((dayNumber s + k) * msPerDay - c)"
    using r
    by (simp add: setDate_def Let_def lt gd YearFromTime_def MonthFromTime_def Day_midnight
        MakeDay_of_civil MakeDate_def fixed_LocalTime(2) [OF tz] TimeClip_def)
  show ?thesis
    by (simp add: addDays_def nd sd formatLocalDate_Some fixed_LocalTime [OF tz] Day_midnight)
qed

lemma fourDigitYears_clip:
  assumes "fourDigitYears n" and "\<bar>c\<bar> < msPerDay"
  shows "\<bar>n * msPerDay - c\<bar> \<le> 8640000000000000"
  using assms unfolding fourDigitYears_def DayFromYear_1000 DayFromYear_10000 msPerDay_def
  by linarith

section \<open>The order of canonical dates\<close>

lemma char_less_digitVal: "(a < b) = (digitVal a < digitVal b)"
  by (simp add: less_char_def digitVal_def)

lemma char_eq_digitVal: "(a = b) = (digitVal a = digitVal b)"
  by (simp add: digitVal_def)

lemma digitVal_range: "isDigit a \<Longrightarrow> 0 \<le> digitVal a \<and> digitVal a \<le> 9"
  by (simp add: isDigit_def digitVal_def)

lemma lex_step_less:
  fixes q r q' r' :: int
  assumes "0 \<le> r" "r \<le> 9" "0 \<le> r'" "r' \<le> 9"
  shows "(10 * q + r < 10 * q' + r') = (q < q' \<or> q = q' \<and> r < r')"
  using assms by arith

lemma lex_step_eq:
  fixes q r q' r' :: int
  assumes "0 \<le> r" "r \<le> 9" "0 \<le> r'" "r' \<le> 9"
  shows "(10 * q + r = 10 * q' + r') = (q = q' \<and> r = r')"
proof -
  have "(10 * q + r = 10 * q' + r')
      = (\<not> 10 * q + r < 10 * q' + r' \<and> \<not> 10 * q' + r' < 10 * q + r)"
    by auto
  also have "\<dots> = (\<not> (q < q' \<or> q = q' \<and> r < r') \<and> \<not> (q' < q \<or> q' = q \<and> r' < r))"
    unfolding lex_step_less [OF assms] lex_step_less [OF assms(3,4,1,2)] ..
  also have "\<dots> = (q = q' \<and> r = r')"
    by auto
  finally show ?thesis .
qed

lemma digits2_order:
  assumes "isDigit a" "isDigit b" "isDigit a'" "isDigit b'"
  shows "(digitsVal [a, b] < digitsVal [a', b']) = (a < a' \<or> a = a' \<and> b < b')"
    and "(digitsVal [a, b] = digitsVal [a', b']) = (a = a' \<and> b = b')"
proof -
  have e: "digitsVal [a, b] = 10 * digitVal a + digitVal b"
    "digitsVal [a', b'] = 10 * digitVal a' + digitVal b'"
    by (simp_all add: digitsVal_def)
  note r = digitVal_range [OF assms(2)] digitVal_range [OF assms(4)]
  show "(digitsVal [a, b] < digitsVal [a', b']) = (a < a' \<or> a = a' \<and> b < b')"
    unfolding e char_less_digitVal [of a a'] char_less_digitVal [of b b']
      char_eq_digitVal [of a a']
    using r by (intro lex_step_less) simp_all
  show "(digitsVal [a, b] = digitsVal [a', b']) = (a = a' \<and> b = b')"
    unfolding e char_eq_digitVal [of a a'] char_eq_digitVal [of b b']
    using r by (intro lex_step_eq) simp_all
qed

lemma digits4_order:
  assumes "isDigit a" "isDigit b" "isDigit c" "isDigit d"
    and "isDigit a'" "isDigit b'" "isDigit c'" "isDigit d'"
  shows "(digitsVal [a, b, c, d] < digitsVal [a', b', c', d'])
         = (a < a' \<or> a = a' \<and> (b < b' \<or> b = b' \<and> (c < c' \<or> c = c' \<and> d < d')))"
    and "(digitsVal [a, b, c, d] = digitsVal [a', b', c', d'])
         = (a = a' \<and> b = b' \<and> c = c' \<and> d = d')"
proof -
  have e: "digitsVal [a, b, c, d] = 10 * (10 * digitsVal [a, b] + digitVal c) + digitVal d"
    "digitsVal [a', b', c', d'] = 10 * (10 * digitsVal [a', b'] + digitVal c') + digitVal d'"
    by (simp_all add: digitsVal_def)
  note rc = digitVal_range [OF assms(3)] digitVal_range [OF assms(7)]
  note rd = digitVal_range [OF assms(4)] digitVal_range [OF assms(8)]
  have l3: "(10 * digitsVal [a, b] + digitVal c < 10 * digitsVal [a', b'] + digitVal c')
      = (digitsVal [a, b] < digitsVal [a', b']
         \<or> digitsVal [a, b] = digitsVal [a', b'] \<and> digitVal c < digitVal c')"
    using rc by (intro lex_step_less) simp_all
  have e3: "(10 * digitsVal [a, b] + digitVal c = 10 * digitsVal [a', b'] + digitVal c')
      = (digitsVal [a, b] = digitsVal [a', b'] \<and> digitVal c = digitVal c')"
    using rc by (intro lex_step_eq) simp_all
  have l4: "(digitsVal [a, b, c, d] < digitsVal [a', b', c', d'])
      = (10 * digitsVal [a, b] + digitVal c < 10 * digitsVal [a', b'] + digitVal c'
         \<or> 10 * digitsVal [a, b] + digitVal c = 10 * digitsVal [a', b'] + digitVal c'
           \<and> digitVal d < digitVal d')"
    unfolding e using rd by (intro lex_step_less) simp_all
  have e4: "(digitsVal [a, b, c, d] = digitsVal [a', b', c', d'])
      = (10 * digitsVal [a, b] + digitVal c = 10 * digitsVal [a', b'] + digitVal c'
           \<and> digitVal d = digitVal d')"
    unfolding e using rd by (intro lex_step_eq) simp_all
  note o2 = digits2_order [OF assms(1,2,5,6)]
  show "(digitsVal [a, b, c, d] < digitsVal [a', b', c', d'])
         = (a < a' \<or> a = a' \<and> (b < b' \<or> b = b' \<and> (c < c' \<or> c = c' \<and> d < d')))"
    unfolding l4 l3 e3 o2 char_less_digitVal [of c c'] char_less_digitVal [of d d']
      char_eq_digitVal [of c c'] by blast
  show "(digitsVal [a, b, c, d] = digitsVal [a', b', c', d'])
         = (a = a' \<and> b = b' \<and> c = c' \<and> d = d')"
    unfolding e4 e3 o2 char_eq_digitVal [of c c'] char_eq_digitVal [of d d'] by blast
qed

lemma monthStart_step:
  assumes "l = 0 \<or> l = 1" and "0 \<le> m" and "m \<le> 11"
  shows "monthStart l m < monthStart l (m + 1)"
  using month_cases [OF assms(2,3)] assms(1)
  by (elim disjE) (simp_all add: monthStart_def)

lemma monthStart_add:
  assumes "l = 0 \<or> l = 1" and "0 \<le> a"
  shows "a + int k \<le> 12 \<Longrightarrow> monthStart l a \<le> monthStart l (a + int k)"
proof (induction k)
  case 0
  then show ?case by simp
next
  case (Suc k)
  then have "monthStart l a \<le> monthStart l (a + int k)" by simp
  moreover have "monthStart l (a + int k) < monthStart l (a + int k + 1)"
    using Suc.prems assms by (intro monthStart_step) simp_all
  moreover have "a + int k + 1 = a + int (Suc k)" by simp
  ultimately show ?case by simp
qed

lemma monthStart_mono:
  assumes "l = 0 \<or> l = 1" and "0 \<le> a" and "a \<le> b" and "b \<le> 12"
  shows "monthStart l a \<le> monthStart l b"
  using monthStart_add [OF assms(1,2), of "nat (b - a)"] assms(3,4) by simp

lemma MakeDay_lex:
  assumes v1: "0 \<le> m1" "m1 \<le> 11" "1 \<le> d1" "d1 \<le> daysInMonth y1 m1"
    and v2: "0 \<le> m2" "m2 \<le> 11" "1 \<le> d2" "d2 \<le> daysInMonth y2 m2"
    and lex: "y1 < y2 \<or> y1 = y2 \<and> (m1 < m2 \<or> m1 = m2 \<and> d1 < d2)"
  shows "MakeDay y1 m1 d1 < MakeDay y2 m2 d2"
proof -
  note c1 = civil_of_MakeDay(1) [OF v1]
  note c2 = civil_of_MakeDay(1) [OF v2]
  note b1 = YearFromDay_bounds [of "MakeDay y1 m1 d1", unfolded c1]
  note b2 = YearFromDay_bounds [of "MakeDay y2 m2 d2", unfolded c2]
  show ?thesis
  proof (cases "y1 < y2")
    case True
    then have "DayFromYear (y1 + 1) \<le> DayFromYear y2"
      by (intro DayFromYear_mono) simp
    with b1 b2 show ?thesis by linarith
  next
    case False
    with lex have y: "y1 = y2" and r: "m1 < m2 \<or> m1 = m2 \<and> d1 < d2" by auto
    have l: "InLeapYear y2 = 0 \<or> InLeapYear y2 = 1" by (rule InLeapYear_cases)
    have e1: "MakeDay y1 m1 d1 = DayFromYear y2 + monthStart (InLeapYear y2) m1 + d1 - 1"
      using v1 by (simp add: MakeDay_month y)
    have e2: "MakeDay y2 m2 d2 = DayFromYear y2 + monthStart (InLeapYear y2) m2 + d2 - 1"
      using v2 by (simp add: MakeDay_month)
    show ?thesis
    proof (cases "m1 < m2")
      case True
      have "monthStart (InLeapYear y2) (m1 + 1) \<le> monthStart (InLeapYear y2) m2"
        using True v1 v2 by (intro monthStart_mono [OF l]) simp_all
      moreover have "d1 \<le> monthStart (InLeapYear y2) (m1 + 1) - monthStart (InLeapYear y2) m1"
        using v1(4) by (simp add: daysInMonth_def y)
      ultimately show ?thesis using v2(3) unfolding e1 e2 by linarith
    next
      case False
      with r have "m1 = m2" "d1 < d2" by auto
      then show ?thesis unfolding e1 e2 by simp
    qed
  qed
qed

lemma MakeDay_lex_iff:
  assumes v1: "0 \<le> m1" "m1 \<le> 11" "1 \<le> d1" "d1 \<le> daysInMonth y1 m1"
    and v2: "0 \<le> m2" "m2 \<le> 11" "1 \<le> d2" "d2 \<le> daysInMonth y2 m2"
  shows "(MakeDay y1 m1 d1 < MakeDay y2 m2 d2)
         = (y1 < y2 \<or> y1 = y2 \<and> (m1 < m2 \<or> m1 = m2 \<and> d1 < d2))"
proof
  assume less: "MakeDay y1 m1 d1 < MakeDay y2 m2 d2"
  show "y1 < y2 \<or> y1 = y2 \<and> (m1 < m2 \<or> m1 = m2 \<and> d1 < d2)"
  proof (rule ccontr)
    assume n: "\<not> (y1 < y2 \<or> y1 = y2 \<and> (m1 < m2 \<or> m1 = m2 \<and> d1 < d2))"
    show False
    proof (cases "y1 = y2 \<and> m1 = m2 \<and> d1 = d2")
      case True
      with less show False by simp
    next
      case False
      with n have "y2 < y1 \<or> y2 = y1 \<and> (m2 < m1 \<or> m2 = m1 \<and> d2 < d1)" by auto
      from MakeDay_lex [OF v2 v1 this] less show False by simp
    qed
  qed
next
  assume "y1 < y2 \<or> y1 = y2 \<and> (m1 < m2 \<or> m1 = m2 \<and> d1 < d2)"
  then show "MakeDay y1 m1 d1 < MakeDay y2 m2 d2" by (rule MakeDay_lex [OF v1 v2])
qed

lemma date_text_less:
  assumes "matchesDatePattern s1" and "matchesDatePattern s2"
  shows "(s1 < s2) =
    (digitsVal (take 4 s1) < digitsVal (take 4 s2)
     \<or> digitsVal (take 4 s1) = digitsVal (take 4 s2)
       \<and> (digitsVal (take 2 (drop 5 s1)) < digitsVal (take 2 (drop 5 s2))
          \<or> digitsVal (take 2 (drop 5 s1)) = digitsVal (take 2 (drop 5 s2))
            \<and> digitsVal (drop 8 s1) < digitsVal (drop 8 s2)))"
proof -
  from assms have len: "length s1 = 10" "length s2 = 10"
    by (simp_all add: matchesDatePattern_def)
  obtain a b c d e f g h i j where s1: "s1 = [a, b, c, d, e, f, g, h, i, j]"
    by (rule length_10_E [OF len(1)])
  obtain a' b' c' d' e' f' g' h' i' j' where s2: "s2 = [a', b', c', d', e', f', g', h', i', j']"
    by (rule length_10_E [OF len(2)])
  from assms(1) have p1: "isDigit a" "isDigit b" "isDigit c" "isDigit d" "e = CHR ''-''"
    "isDigit f" "isDigit g" "h = CHR ''-''" "isDigit i" "isDigit j"
    unfolding s1 pattern_list by simp_all
  from assms(2) have p2: "isDigit a'" "isDigit b'" "isDigit c'" "isDigit d'" "e' = CHR ''-''"
    "isDigit f'" "isDigit g'" "h' = CHR ''-''" "isDigit i'" "isDigit j'"
    unfolding s2 pattern_list by simp_all
  note y = digits4_order [OF p1(1-4) p2(1-4)]
  note m = digits2_order [OF p1(6,7) p2(6,7)]
  note dd = digits2_order [OF p1(9,10) p2(9,10)]
  have t: "take 4 s1 = [a, b, c, d]" "take 2 (drop 5 s1) = [f, g]" "drop 8 s1 = [i, j]"
    "take 4 s2 = [a', b', c', d']" "take 2 (drop 5 s2) = [f', g']" "drop 8 s2 = [i', j']"
    by (simp_all add: s1 s2)
  have "(s1 < s2) =
    (a < a' \<or> a = a' \<and> (b < b' \<or> b = b' \<and> (c < c' \<or> c = c' \<and> (d < d' \<or> d = d'
      \<and> (f < f' \<or> f = f' \<and> (g < g' \<or> g = g' \<and> (i < i' \<or> i = i' \<and> j < j')))))))"
    by (simp add: s1 s2 p1(5,8) p2(5,8))
  also have "\<dots> =
    (digitsVal [a, b, c, d] < digitsVal [a', b', c', d']
     \<or> digitsVal [a, b, c, d] = digitsVal [a', b', c', d']
       \<and> (digitsVal [f, g] < digitsVal [f', g']
          \<or> digitsVal [f, g] = digitsVal [f', g'] \<and> digitsVal [i, j] < digitsVal [i', j']))"
    unfolding y m dd by blast
  finally show ?thesis unfolding t .
qed

lemma canonical_order:
  assumes "canonical s1" and "canonical s2"
  shows "(s1 < s2) = (dayNumber s1 < dayNumber s2)"
proof -
  from assms(1) obtain y1 m1 d1 where p1: "parseDay s1 = Some (MakeDay y1 (m1 - 1) d1)"
    and v1: "0 \<le> m1 - 1" "m1 - 1 \<le> 11" "1 \<le> d1" "d1 \<le> daysInMonth y1 (m1 - 1)"
    and e1: "y1 = digitsVal (take 4 s1)" "m1 = digitsVal (take 2 (drop 5 s1))"
      "d1 = digitsVal (drop 8 s1)"
    by (rule canonical_parse) simp_all
  from assms(2) obtain y2 m2 d2 where p2: "parseDay s2 = Some (MakeDay y2 (m2 - 1) d2)"
    and v2: "0 \<le> m2 - 1" "m2 - 1 \<le> 11" "1 \<le> d2" "d2 \<le> daysInMonth y2 (m2 - 1)"
    and e2: "y2 = digitsVal (take 4 s2)" "m2 = digitsVal (take 2 (drop 5 s2))"
      "d2 = digitsVal (drop 8 s2)"
    by (rule canonical_parse) simp_all
  from assms have pat: "matchesDatePattern s1" "matchesDatePattern s2"
    by (simp_all add: canonical_def)
  have "(dayNumber s1 < dayNumber s2)
      = (y1 < y2 \<or> y1 = y2 \<and> (m1 - 1 < m2 - 1 \<or> m1 - 1 = m2 - 1 \<and> d1 < d2))"
    unfolding dayNumber_def p1 p2 using MakeDay_lex_iff [OF v1 v2] by simp
  also have "\<dots> = (y1 < y2 \<or> y1 = y2 \<and> (m1 < m2 \<or> m1 = m2 \<and> d1 < d2))"
    by auto
  also have "\<dots> = (s1 < s2)"
    unfolding date_text_less [OF pat] e1 e2 ..
  finally show ?thesis by simp
qed

section \<open>The next due date\<close>

text \<open>
  A whole number gives the same results whether it is written as an integer or as a
  number with a fractional part of zero.
\<close>

lemma ToIntegerOrInfinity_of_int: "ToIntegerOrInfinity (of_int k) = k"
  by (simp add: ToIntegerOrInfinity_def)

lemma addDaysNumber_whole: "addDaysNumber e s (Frac (of_int k)) = addDays e s k"
proof -
  have h: "ToIntegerOrInfinity (of_int a + of_int k) = a + k" for a
    using ToIntegerOrInfinity_of_int [of "a + k"] by simp
  show ?thesis by (simp add: addDays_def h split: option.split)
qed

lemma whole_fraction_nextDue:
  "calculateNextDueDate e anchor (Frac (of_int n)) lastd
     = calculateNextDueDate e anchor (Num n) lastd"
proof -
  have f: "\<lfloor>rat_of_int a / rat_of_int n\<rfloor> = a div n" for a
    by (rule floor_divide_of_int_eq)
  have r: "(rat_of_int a - rat_of_int n * rat_of_int (a div n) = 0) = (a mod n = 0)" for a
  proof -
    have "rat_of_int a - rat_of_int n * rat_of_int (a div n) = rat_of_int (a - n * (a div n))"
      by simp
    also have "a - n * (a div n) = a mod n" by (rule minus_mult_div_eq_mod)
    finally show ?thesis by simp
  qed
  have m: "Frac (rat_of_int k * rat_of_int n) = Frac (rat_of_int (k * n))" for k
    by simp
  show ?thesis
    by (simp only: calculateNextDueDate_def isFinite.simps numLe0.simps remainderIsZero.simps
        floorDiv.simps multiply.simps f r m addDaysNumber_whole addDaysNumber.simps(1)
        of_int_le_0_iff)
qed

lemma whole_fraction_missedCount:
  "calculateMissedCount e nextDue (Frac (of_int n)) ref
     = calculateMissedCount e nextDue (Num n) ref"
proof -
  have f: "\<lfloor>rat_of_int a / rat_of_int n\<rfloor> = a div n" for a
    by (rule floor_divide_of_int_eq)
  show ?thesis
    by (simp only: calculateMissedCount_def isFinite.simps numLe0.simps floorDiv.simps f
        of_int_le_0_iff)
qed

lemma calculateNextDueDate_canonical:
  assumes "canonical anchor" and "canonical lastd" and "0 < p"
  shows "calculateNextDueDate e anchor (Num p) (Some lastd) =
           (if diffDays e anchor lastd < 0 then anchor
            else if diffDays e anchor lastd mod p = 0 then addDays e lastd p
            else addDays e anchor ((diffDays e anchor lastd div p + 1) * p))"
  using assms canonical_nonempty [of lastd]
  by (simp add: calculateNextDueDate_def normalizeDate_canonical Let_def)

lemma next_grid_day:
  fixes el p :: int
  assumes "0 < p"
  shows "(el div p + 1) * p = el + p - el mod p"
proof -
  have "el div p * p + el mod p = el" by (rule div_mult_mod_eq)
  then show ?thesis by (simp add: algebra_simps)
qed

lemma clip_range:
  assumes "- 719528 \<le> n" and "n \<le> 99999999" and "\<bar>c\<bar> < msPerDay"
  shows "\<bar>n * msPerDay - c\<bar> \<le> 8640000000000000"
  using assms unfolding msPerDay_def by linarith

lemma nextDue_fixed:
  assumes tz: "LocalTZA e = (\<lambda>t b. c)" and c: "\<bar>c\<bar> < msPerDay"
    and a: "canonical anchor" and l: "canonical lastd" and p: "0 < p"
    and r: "dayNumber lastd + p \<le> 99999999"
  shows "calculateNextDueDate e anchor (Num p) (Some lastd) =
           (if dayNumber lastd < dayNumber anchor then anchor
            else formatDay (dayNumber lastd + p - (dayNumber lastd - dayNumber anchor) mod p))"
proof (cases "dayNumber lastd < dayNumber anchor")
  case True
  then show ?thesis
    by (simp add: calculateNextDueDate_canonical [OF a l p] diffDays_fixed [OF tz c a l])
next
  case False
  define el where "el = dayNumber lastd - dayNumber anchor"
  have el: "0 \<le> el" using False by (simp add: el_def)
  have m: "0 \<le> el mod p" "el mod p < p" using p by simp_all
  note ra = canonical_day_range [OF a]
  note rl = canonical_day_range [OF l]
  have d: "diffDays e anchor lastd = el"
    by (simp add: diffDays_fixed [OF tz c a l] el_def)
  show ?thesis
  proof (cases "el mod p = 0")
    case True
    have "\<bar>(dayNumber lastd + p) * msPerDay - c\<bar> \<le> 8640000000000000"
      using rl(2) r p c by (intro clip_range) simp_all
    then have "addDays e lastd p = formatDay (dayNumber lastd + p)"
      by (rule addDays_fixed [OF tz c l])
    then show ?thesis using False True el
      by (simp add: calculateNextDueDate_canonical [OF a l p] d el_def [symmetric])
  next
    case nz: False
    have g: "dayNumber anchor + (el div p + 1) * p = dayNumber lastd + p - el mod p"
      by (simp add: next_grid_day [OF p] el_def)
    have "\<bar>(dayNumber anchor + (el div p + 1) * p) * msPerDay - c\<bar> \<le> 8640000000000000"
      unfolding g using rl(2) r m c by (intro clip_range) simp_all
    then have "addDays e anchor ((el div p + 1) * p)
        = formatDay (dayNumber anchor + (el div p + 1) * p)"
      by (rule addDays_fixed [OF tz c a])
    then show ?thesis using False nz el
      by (simp add: calculateNextDueDate_canonical [OF a l p] d g el_def [symmetric])
  qed
qed

lemma addDays_overflow:
  assumes tz: "LocalTZA e = (\<lambda>t b. c)" and c: "\<bar>c\<bar> < msPerDay" and s: "canonical s"
    and r: "8640000000000000 < \<bar>(dayNumber s + k) * msPerDay - c\<bar>"
  shows "addDays e s k = ''NaN-NaN-NaN''"
proof -
  define t where "t = dayNumber s * msPerDay - c"
  have nd: "newDate e (s @ ''T00:00:00'') = Some t"
    using parseDate_fixed [OF tz c s] by (simp add: parseDate_def t_def)
  have lt: "LocalTime e t = dayNumber s * msPerDay"
    by (simp add: fixed_LocalTime [OF tz] t_def)
  have gd: "getDate e t = DateFromDay (dayNumber s)"
    by (simp add: getDate_def lt DateFromTime_def Day_midnight)
  have sd: "setDate e t (getDate e t + k) = None"
    using r
    by (simp add: setDate_def Let_def lt gd YearFromTime_def MonthFromTime_def Day_midnight
        MakeDay_of_civil MakeDate_def fixed_LocalTime(2) [OF tz] TimeClip_def)
  show ?thesis
    by (simp add: addDays_def nd sd formatLocalDate_def)
qed

lemma fourDigitYears_between:
  assumes "fourDigitYears a" and "fourDigitYears b" and "a \<le> n" and "n \<le> b"
  shows "fourDigitYears n"
  using assms by (simp add: fourDigitYears_def)

lemma formatDay_canonical:
  assumes "fourDigitYears n"
  shows "canonical (formatDay n)" and "dayNumber (formatDay n) = n"
  using parseDay_formatDay [OF fourDigitYears_year [OF assms]]
  by (simp_all add: dayNumber_def)

lemma fourDigitYears_le:
  "fourDigitYears n \<Longrightarrow> - 719528 \<le> n \<and> n \<le> 99999999"
  by (simp add: fourDigitYears_def DayFromYear_1000 DayFromYear_10000)

lemma next_due_fixed_properties:
  assumes tz: "LocalTZA e = (\<lambda>t b. c)" and c: "\<bar>c\<bar> < msPerDay"
    and a: "canonical anchor" and l: "canonical lastd" and p: "0 < p"
    and f1: "fourDigitYears (dayNumber lastd)" and f2: "fourDigitYears (dayNumber lastd + p)"
  shows "canonical (calculateNextDueDate e anchor (Num p) (Some lastd))"
    and "dayNumber lastd < dayNumber (calculateNextDueDate e anchor (Num p) (Some lastd))"
    and "\<exists>n\<ge>0. dayNumber (calculateNextDueDate e anchor (Num p) (Some lastd))
            = dayNumber anchor + n * p"
proof -
  define el where "el = dayNumber lastd - dayNumber anchor"
  define rr where "rr = dayNumber lastd + p - el mod p"
  have r: "dayNumber lastd + p \<le> 99999999" using fourDigitYears_le [OF f2] by simp
  note nd = nextDue_fixed [OF tz c a l p r, folded el_def, folded rr_def]
  have m: "0 \<le> el mod p" "el mod p < p" using p by simp_all
  have fr: "fourDigitYears rr"
    using m by (intro fourDigitYears_between [OF f1 f2]) (simp_all add: rr_def)
  note cr = formatDay_canonical [OF fr]
  show "canonical (calculateNextDueDate e anchor (Num p) (Some lastd))"
    using a cr(1) by (simp add: nd)
  show "dayNumber lastd < dayNumber (calculateNextDueDate e anchor (Num p) (Some lastd))"
    using m by (simp add: nd cr(2)) (simp add: rr_def)
  show "\<exists>n\<ge>0. dayNumber (calculateNextDueDate e anchor (Num p) (Some lastd))
            = dayNumber anchor + n * p"
  proof (cases "dayNumber lastd < dayNumber anchor")
    case True
    then have "dayNumber (calculateNextDueDate e anchor (Num p) (Some lastd))
        = dayNumber anchor + 0 * p" by (simp add: nd)
    then show ?thesis by (intro exI [of _ 0]) simp
  next
    case False
    then have el: "0 \<le> el" by (simp add: el_def)
    then have q: "0 \<le> el div p + 1" using p by (simp add: pos_imp_zdiv_nonneg_iff)
    have g: "rr = dayNumber anchor + (el div p + 1) * p"
      by (simp add: next_grid_day [OF p] rr_def el_def)
    have "dayNumber (calculateNextDueDate e anchor (Num p) (Some lastd)) = rr"
      using False by (simp add: nd cr(2))
    then have "dayNumber (calculateNextDueDate e anchor (Num p) (Some lastd))
        = dayNumber anchor + (el div p + 1) * p" unfolding g .
    with q show ?thesis by (intro exI [of _ "el div p + 1"]) simp
  qed
qed

section \<open>Evaluation on concrete dates\<close>

lemma utcHost_fixed: "LocalTZA utcHost = (\<lambda>t b. 0)" "\<bar>0\<bar> < msPerDay"
  by (simp_all add: utcHost_def msPerDay_def)

lemma canonical_literal:
  "matchesDatePattern s \<Longrightarrow> parseDay s = Some n \<Longrightarrow> canonical s \<and> dayNumber s = n"
  by (simp add: canonical_def dayNumber_def)

lemma formatDay_in_year:
  assumes "DayFromYear y \<le> n" and "n < DayFromYear (y + 1)"
  shows "formatDay n =
     showInt y @ ''-''
     @ padStart2 (showInt (monthOfDayWithinYear (InLeapYear y) (n - DayFromYear y) + 1)) @ ''-''
     @ padStart2 (showInt (n - DayFromYear y
         - monthStart (InLeapYear y) (monthOfDayWithinYear (InLeapYear y) (n - DayFromYear y))
         + 1))"
  using YearFromDay_unique [OF assms]
  by (simp add: formatDay_def MonthFromDay_def DateFromDay_def DayWithinYear_def)

lemma digitChar_eval:
  "digitChar 0 = CHR ''0''" "digitChar 1 = CHR ''1''" "digitChar 2 = CHR ''2''"
  "digitChar 3 = CHR ''3''" "digitChar 4 = CHR ''4''" "digitChar 5 = CHR ''5''"
  "digitChar 6 = CHR ''6''" "digitChar 7 = CHR ''7''" "digitChar 8 = CHR ''8''"
  "digitChar 9 = CHR ''9''" "digitChar (Suc 0) = CHR ''1''"
  by (simp_all add: digitChar_def char_of_eq_iff)

lemmas format_eval = showInt_def padStart2_def showNat.simps digitChar_eval
  monthOfDayWithinYear_def monthStart_def InLeapYear_def DaysInYear_def DayFromYear_def

lemma canonical_9999_12_30: "canonical ''9999-12-30'' \<and> dayNumber ''9999-12-30'' = 2932895"
  by (rule canonical_literal) (simp_all add: matchesDatePattern_def parse_eval)

lemma formatDay_2932902: "formatDay 2932902 = ''10000-01-06''"
  by (subst formatDay_in_year [of 10000]) (simp_all add: format_eval)

lemma formatDay_19737: "formatDay 19737 = ''2024-01-15''"
  by (subst formatDay_in_year [of 2024]) (simp_all add: format_eval)

lemma nextDue_9999: "calculateNextDueDate utcHost ''9999-12-30'' (Num 7) (Some ''9999-12-30'') = ''10000-01-06''"
  using nextDue_fixed [OF utcHost_fixed, of "''9999-12-30''" "''9999-12-30''" 7]
  by (simp add: canonical_9999_12_30 formatDay_2932902)

section \<open>Daylight saving\<close>

text \<open>
  diffDays takes the floor of a difference of two local midnights in milliseconds. Where
  the offset from UTC grows between the two dates (the clock is put forward), the
  difference is short of a whole number of days and the floor is one day less than the
  number of calendar days. addDays works on the calendar (setDate) and does not have this
  problem.
\<close>

lemma addDays_any_host:
  assumes "parseDate e s = Some t"
  shows "addDays e s k =
     formatLocalDate e (TimeClip (UTC e (MakeDate (Day (LocalTime e t) + k)
       (TimeWithinDay (LocalTime e t)))))"
  using assms
  by (simp add: addDays_def parseDate_def setDate_def getDate_def Let_def YearFromTime_def
      MonthFromTime_def DateFromTime_def MakeDay_of_civil)

lemma parseDay_2024_03: "parseDay ''2024-03-04'' = Some 19786"
  "parseDay ''2024-03-10'' = Some 19792" "parseDay ''2024-03-11'' = Some 19793"
  by (simp_all add: parse_eval)

lemma canonical_2024_03: "canonical ''2024-03-04''" "canonical ''2024-03-10''"
  "canonical ''2024-03-11''"
  by (simp_all add: canonical_def parseDay_2024_03) (simp_all add: matchesDatePattern_def isDigit_def)

lemma parseDate_newYork:
  "parseDate newYorkHost ''2024-03-04'' = Some 1709528400000"
  "parseDate newYorkHost ''2024-03-10'' = Some 1710046800000"
  "parseDate newYorkHost ''2024-03-11'' = Some 1710129600000"
  using canonical_2024_03
  by (simp_all add: canonical_def parseDate_pattern parseDay_2024_03 MakeDate_def UTC_def
      TimeClip_def msPerDay_def newYorkHost_def)

lemma diffDays_newYork:
  "diffDays newYorkHost ''2024-03-10'' ''2024-03-11'' = 0"
  "diffDays newYorkHost ''2024-03-04'' ''2024-03-11'' = 6"
  by (simp_all add: diffDays_def parseDate_newYork)

lemma formatDay_19793: "formatDay 19793 = ''2024-03-11''"
  by (subst formatDay_in_year [of 2024]) (simp_all add: format_eval)

lemma addDays_newYork:
  "addDays newYorkHost ''2024-03-10'' 1 = ''2024-03-11''"
  "addDays newYorkHost ''2024-03-04'' 7 = ''2024-03-11''"
proof -
  show "addDays newYorkHost ''2024-03-10'' 1 = ''2024-03-11''"
    unfolding addDays_any_host [OF parseDate_newYork(2)]
    by (simp add: newYorkHost_def LocalTime_def UTC_def Day_def TimeWithinDay_def
        MakeDate_def TimeClip_def msPerDay_def formatLocalDate_Some formatDay_19793)
  show "addDays newYorkHost ''2024-03-04'' 7 = ''2024-03-11''"
    unfolding addDays_any_host [OF parseDate_newYork(1)]
    by (simp add: newYorkHost_def LocalTime_def UTC_def Day_def TimeWithinDay_def
        MakeDate_def TimeClip_def msPerDay_def formatLocalDate_Some formatDay_19793)
qed

lemma nextDue_newYork:
  "calculateNextDueDate newYorkHost ''2024-03-04'' (Num 7) (Some ''2024-03-11'') = ''2024-03-11''"
  "calculateNextDueDate newYorkHost ''2024-03-10'' (Num 1) (Some ''2024-03-10'') = ''2024-03-11''"
proof -
  have p: "(0::int) < 7" "(0::int) < 1" by simp_all
  have z: "diffDays newYorkHost ''2024-03-10'' ''2024-03-10'' = 0"
    by (simp add: diffDays_def parseDate_newYork)
  show "calculateNextDueDate newYorkHost ''2024-03-04'' (Num 7) (Some ''2024-03-11'')
      = ''2024-03-11''"
    by (simp add: calculateNextDueDate_canonical [OF canonical_2024_03(1,3) p(1)]
        diffDays_newYork addDays_newYork)
  show "calculateNextDueDate newYorkHost ''2024-03-10'' (Num 1) (Some ''2024-03-10'')
      = ''2024-03-11''"
    by (simp add: calculateNextDueDate_canonical [OF canonical_2024_03(2,2) p(2)]
        z addDays_newYork)
qed

section \<open>Reading and writing the record store\<close>

lemma find_map_same:
  assumes "\<And>x. P (g x) = P x"
  shows "find P (map g xs) = map_option g (find P xs)"
  by (induction xs) (simp_all add: assms)

text \<open>
  The start_date column is never empty in a store the program writes: normalizeDate
  returns its argument when that matches the pattern of a date, and otherwise the text of
  formatLocalDate, and the two operations that write schedule rows keep the property. (A
  table from before the column existed is migrated when the module is loaded: the
  migration copies next_due into start_date in every row.)
\<close>

lemma formatLocalDate_nonempty: "formatLocalDate e date \<noteq> []"
  by (cases date) (simp_all add: formatLocalDate_def Let_def)

lemma normalizeDate_nonempty: "normalizeDate e value \<noteq> []"
  by (simp add: normalizeDate_def today_def formatLocalDate_nonempty split: option.split)

lemma upsertSchedule_keeps_start_dates:
  assumes "upsertSchedule e d teamId cadenceDays startDateInput = Inr (r, d')"
    and "\<forall>s\<in>set (checkin_schedules d). s_start_date s \<noteq> []"
  shows "\<forall>s\<in>set (checkin_schedules d'). s_start_date s \<noteq> []"
  using assms normalizeDate_nonempty [of e startDateInput]
  by (auto simp add: upsertSchedule_def Let_def split: if_splits)

lemma createCheckin_keeps_start_dates:
  assumes "createCheckin e d teamId personId rating notes = Inr (r, d')"
    and "\<forall>s\<in>set (checkin_schedules d). s_start_date s \<noteq> []"
  shows "\<forall>s\<in>set (checkin_schedules d'). s_start_date s \<noteq> []"
  using assms
  by (auto simp add: createCheckin_def Let_def split: if_splits option.splits)

text \<open>
  For a row with a start_date, what getSchedule returns as next_due and missed_count is
  computed from the start_date and the cadence_days of the row, the date of the last
  check-in of the team, and today.
\<close>

lemma getSchedule_inputs:
  assumes "find (\<lambda>s. s_team_id s = teamId) (checkin_schedules d) = Some r"
    and "s_start_date r \<noteq> []"
  shows "map_option (\<lambda>v. (v_next_due v, v_missed_count v)) (getSchedule e d teamId)
         = Some (let nextDue = calculateNextDueDate e (s_start_date r) (Num (s_cadence_days r))
                                 (getLastTeamCheckinDate e d teamId)
                 in (nextDue, calculateMissedCount e nextDue (Num (s_cadence_days r)) (today e)))"
  using assms by (simp add: getSchedule_def Let_def)

section \<open>The claims\<close>

text \<open>
  C1. For canonical anchor and last-activity dates and a positive integer period, with
  elapsed = diffDays(anchor, last_activity) not negative: when elapsed is a multiple of
  the period (zero included) calculateNextDueDate returns addDays(last_activity, period),
  and otherwise addDays(anchor, k * period) with k = floor(elapsed / period) + 1. This
  holds on every host (time zone and clock).
\<close>

theorem nextDueDate_cases:
  assumes "canonical anchor" and "canonical lastd" and "0 < p"
    and "0 \<le> diffDays e anchor lastd"
  shows "calculateNextDueDate e anchor (Num p) (Some lastd) =
           (if diffDays e anchor lastd mod p = 0 then addDays e lastd p
            else addDays e anchor ((diffDays e anchor lastd div p + 1) * p))"
  using assms canonical_nonempty [of lastd]
  by (simp add: calculateNextDueDate_def normalizeDate_canonical Let_def)

theorem nextDueDate_cases_witness:
  "canonical ''2024-01-01'' \<and> canonical ''2024-01-10'' \<and> (0::int) < 7
   \<and> 0 \<le> diffDays utcHost ''2024-01-01'' ''2024-01-10''
   \<and> calculateNextDueDate utcHost ''2024-01-01'' (Num 7) (Some ''2024-01-10'')
       = addDays utcHost ''2024-01-01'' 14"
  using nextDueDate_cases [of "''2024-01-01''" "''2024-01-10''" 7 utcHost]
  by (simp add: canonical_2024_01_01 canonical_2024_01_10 diffDays_utc_9)

text \<open>
  C5, as amended. For a canonical anchor and a cadence length that is not a finite number
  greater than 0 (zero, a negative number with or without a fractional part, NaN or an
  infinity), whatever the last activity and the reference date: calculateNextDueDate
  returns the anchor unchanged, and calculateMissedCount on that result is 0.
\<close>

theorem invalid_cadence_disables:
  assumes "canonical anchor" and "\<not> positiveNumber c"
  shows "calculateNextDueDate e anchor c lastd = anchor
         \<and> calculateMissedCount e (calculateNextDueDate e anchor c lastd) c ref = 0"
  using assms
  by (cases c) (simp_all add: calculateNextDueDate_def calculateMissedCount_def
      normalizeDate_canonical)

theorem invalid_cadence_disables_witness:
  "canonical ''2024-01-01'' \<and> \<not> positiveNumber (Frac (- (5 / 2)))
   \<and> calculateNextDueDate utcHost ''2024-01-01'' (Frac (- (5 / 2))) (Some ''2024-01-10'')
       = ''2024-01-01''
   \<and> calculateMissedCount utcHost
         (calculateNextDueDate utcHost ''2024-01-01'' (Frac (- (5 / 2))) (Some ''2024-01-10''))
         (Frac (- (5 / 2))) ''2024-01-25'' = 0"
proof -
  have np: "\<not> positiveNumber (Frac (- (5 / 2)))" by simp
  note h = invalid_cadence_disables [OF canonical_2024_01_01 np,
      of utcHost "Some ''2024-01-10''" "''2024-01-25''"]
  show ?thesis
    by (intro conjI canonical_2024_01_01 np conjunct1 [OF h] conjunct2 [OF h])
qed

text \<open>
  The same does not hold of every cadence length that is not a positive integer. The
  guard of calculateNextDueDate and of calculateMissedCount tests that the number is
  finite and greater than 0, not that it is whole, and a positive number with a fractional
  part is used as it is: with the anchor 2024-01-01, the cadence 2.5 and the last activity
  on 2024-01-10, the elapsed 9 days are not a multiple of 2.5, the next interval is the
  fourth, and setDate moves the anchor by 4 * 2.5 = 10 days. The next due date is
  2024-01-11, not the anchor, and on 2024-01-25 the missed count is 6.
\<close>

lemma parseDay_2024_01_11: "parseDay ''2024-01-11'' = Some 19733"
  by (simp add: parse_eval)

lemma parseDay_2024_01_25: "parseDay ''2024-01-25'' = Some 19747"
  by (simp add: parse_eval)

lemma canonical_2024_01_11: "canonical ''2024-01-11''"
  by (simp add: canonical_def parseDay_2024_01_11) (simp add: matchesDatePattern_def isDigit_def)

lemma canonical_2024_01_25: "canonical ''2024-01-25''"
  by (simp add: canonical_def parseDay_2024_01_25) (simp add: matchesDatePattern_def isDigit_def)

lemma diffDays_utc_14: "diffDays utcHost ''2024-01-11'' ''2024-01-25'' = 14"
  using diffDays_fixed [OF utcHost_fixed canonical_2024_01_11 canonical_2024_01_25]
  by (simp add: dayNumber_def parseDay_2024_01_11 parseDay_2024_01_25)

lemma formatDay_19733: "formatDay 19733 = ''2024-01-11''"
  by (subst formatDay_in_year [of 2024]) (simp_all add: format_eval)

lemma addDays_utc_10: "addDays utcHost ''2024-01-01'' 10 = ''2024-01-11''"
  using addDays_fixed [OF utcHost_fixed canonical_2024_01_01, of 10]
  by (simp add: dayNumber_def parseDay_2024_01_01 msPerDay_def formatDay_19733)

lemma floor_rat_eval:
  "\<lfloor>(5::rat) / 2\<rfloor> = 2" "\<lfloor>(18::rat) / 5\<rfloor> = 3" "\<lfloor>(26::rat) / 5\<rfloor> = 5"
  by (simp_all add: floor_eq_iff)

lemma nextDue_two_and_a_half:
  "calculateNextDueDate utcHost ''2024-01-01'' (Frac (5 / 2)) (Some ''2024-01-10'')
     = ''2024-01-11''"
proof -
  have r: "\<not> remainderIsZero 9 (Frac (5 / 2))" by (simp add: floor_rat_eval)
  have f: "floorDiv 9 (Frac (5 / 2)) = 3" by (simp add: floor_rat_eval)
  have m: "multiply 4 (Frac (5 / 2)) = Frac 10" by simp
  have a: "addDaysNumber utcHost ''2024-01-01'' (Frac 10) = ''2024-01-11''"
    using addDaysNumber_whole [of utcHost "''2024-01-01''" 10]
    by (simp add: addDays_utc_10 del: addDaysNumber.simps)
  show ?thesis
    using canonical_nonempty [OF canonical_2024_01_10]
    by (simp add: calculateNextDueDate_def normalizeDate_canonical canonical_2024_01_01
        canonical_2024_01_10 diffDays_utc_9 r f m a
        del: remainderIsZero.simps floorDiv.simps multiply.simps addDaysNumber.simps)
qed

theorem invalid_cadence_disables_counterexample:
  "canonical ''2024-01-01'' \<and> \<not> positiveInteger (Frac (5 / 2))
   \<and> calculateNextDueDate utcHost ''2024-01-01'' (Frac (5 / 2)) (Some ''2024-01-10'')
       = ''2024-01-11''
   \<and> calculateMissedCount utcHost
         (calculateNextDueDate utcHost ''2024-01-01'' (Frac (5 / 2)) (Some ''2024-01-10''))
         (Frac (5 / 2)) ''2024-01-25'' = 6"
proof -
  have n: "\<not> positiveInteger (Frac (5 / 2))" by (simp add: floor_rat_eval)
  have f: "floorDiv 13 (Frac (5 / 2)) = 5" by (simp add: floor_rat_eval)
  have m: "calculateMissedCount utcHost ''2024-01-11'' (Frac (5 / 2)) ''2024-01-25'' = 6"
    by (simp add: calculateMissedCount_def diffDays_utc_14 f del: floorDiv.simps)
  show ?thesis
    unfolding nextDue_two_and_a_half
    by (intro conjI canonical_2024_01_01 n m refl)
qed

text \<open>
  C6. diffDays is a total function of its two strings (nothing in it can throw): when
  either string does not parse as a date it returns 0, and in particular
  diffDays("not-a-date", "2024-01-01") is 0.
\<close>

theorem diffDays_unparseable:
  "(parseDate e s = None \<or> parseDate e en = None \<longrightarrow> diffDays e s en = 0)
   \<and> diffDays e ''not-a-date'' ''2024-01-01'' = 0"
proof -
  have "parseDate e ''not-a-date'' = None"
    by (simp add: parseDate_def newDate_def parseDayLenient_def parseDatePart_def isDigit_def)
  then show ?thesis
    by (auto simp add: diffDays_def split: option.splits)
qed

theorem diffDays_unparseable_witness:
  "parseDate utcHost ''2024-13-01'' = None \<and> diffDays utcHost ''2024-13-01'' ''2024-01-01'' = 0"
proof -
  have n: "parseDate utcHost ''2024-13-01'' = None"
    by (simp add: parseDate_def newDate_def parse_eval)
  show ?thesis
    using diffDays_unparseable [of utcHost "''2024-13-01''" "''2024-01-01''"] n by simp
qed

text \<open>
  C2, as amended. On a host with a fixed offset from UTC, for canonical anchor and
  last-activity dates and a positive integer period, when the last activity lies in the
  years 1000 to 9999 and last activity + period is no later than 9999-12-31: the date
  calculateNextDueDate returns is canonical, strictly greater than the last activity (in
  the string order the code compares dates with, and as a day), and is the anchor plus a
  non-negative multiple of the period.
\<close>

theorem next_due_after_activity_on_grid:
  assumes "LocalTZA e = (\<lambda>t b. c)" and "\<bar>c\<bar> < msPerDay"
    and "canonical anchor" and "canonical lastd" and "0 < p"
    and "fourDigitYears (dayNumber lastd)" and "fourDigitYears (dayNumber lastd + p)"
  shows "canonical (calculateNextDueDate e anchor (Num p) (Some lastd))
    \<and> lastd < calculateNextDueDate e anchor (Num p) (Some lastd)
    \<and> dayNumber lastd < dayNumber (calculateNextDueDate e anchor (Num p) (Some lastd))
    \<and> (\<exists>n\<ge>0. dayNumber (calculateNextDueDate e anchor (Num p) (Some lastd))
                 = dayNumber anchor + n * p)"
proof -
  note pr = next_due_fixed_properties [OF assms]
  have "lastd < calculateNextDueDate e anchor (Num p) (Some lastd)"
    using pr(2) by (simp add: canonical_order [OF assms(4) pr(1)])
  with pr show ?thesis by simp
qed

lemma dayNumber_2024: "dayNumber ''2024-01-01'' = 19723" "dayNumber ''2024-01-10'' = 19732"
  by (simp_all add: dayNumber_def parseDay_2024_01_01 parseDay_2024_01_10)

lemma fourDigitYears_2024: "fourDigitYears 19723" "fourDigitYears 19730" "fourDigitYears 19732"
  "fourDigitYears 19739"
  by (simp_all add: fourDigitYears_def DayFromYear_1000 DayFromYear_10000)

theorem next_due_after_activity_on_grid_witness:
  "LocalTZA utcHost = (\<lambda>t b. 0) \<and> \<bar>0\<bar> < msPerDay
   \<and> canonical ''2024-01-01'' \<and> canonical ''2024-01-10'' \<and> (0::int) < 7
   \<and> fourDigitYears (dayNumber ''2024-01-10'') \<and> fourDigitYears (dayNumber ''2024-01-10'' + 7)
   \<and> canonical (calculateNextDueDate utcHost ''2024-01-01'' (Num 7) (Some ''2024-01-10''))
   \<and> ''2024-01-10'' < calculateNextDueDate utcHost ''2024-01-01'' (Num 7) (Some ''2024-01-10'')
   \<and> dayNumber ''2024-01-10''
       < dayNumber (calculateNextDueDate utcHost ''2024-01-01'' (Num 7) (Some ''2024-01-10''))
   \<and> (\<exists>n\<ge>0. dayNumber (calculateNextDueDate utcHost ''2024-01-01'' (Num 7)
                   (Some ''2024-01-10'')) = dayNumber ''2024-01-01'' + n * 7)"
proof -
  have f: "fourDigitYears (dayNumber ''2024-01-10'')"
    "fourDigitYears (dayNumber ''2024-01-10'' + 7)"
    by (simp_all add: dayNumber_2024 fourDigitYears_2024)
  have p: "(0::int) < 7" by simp
  note h = next_due_after_activity_on_grid [OF utcHost_fixed canonical_2024_01_01
      canonical_2024_01_10 p f]
  show ?thesis
    using utcHost_fixed canonical_2024_01_01 canonical_2024_01_10 p f h by blast
qed

lemma addDays_utc_overflow: "addDays utcHost ''2024-01-01'' 100000000 = ''NaN-NaN-NaN''"
  by (intro addDays_overflow [OF utcHost_fixed])
    (simp_all add: canonical_2024_01_01 dayNumber_2024 msPerDay_def)

lemma parseDate_NaN: "parseDate e ''NaN-NaN-NaN'' = None"
  by (simp add: parseDate_def newDate_def parseDayLenient_def parseDatePart_def isDigit_def)

lemma not_canonical_NaN: "\<not> canonical ''NaN-NaN-NaN''"
  by (simp add: canonical_def matchesDatePattern_def isDigit_def)

theorem next_due_after_activity_counterexample:
  "canonical ''2024-01-01'' \<and> canonical ''2024-01-10'' \<and> (0::int) < 100000000
   \<and> calculateNextDueDate utcHost ''2024-01-01'' (Num 100000000) (Some ''2024-01-10'')
       = ''NaN-NaN-NaN''
   \<and> \<not> canonical
         (calculateNextDueDate utcHost ''2024-01-01'' (Num 100000000) (Some ''2024-01-10''))
   \<and> parseDate utcHost
         (calculateNextDueDate utcHost ''2024-01-01'' (Num 100000000) (Some ''2024-01-10''))
       = None"
proof -
  have p: "(0::int) < 100000000" by simp
  have r: "calculateNextDueDate utcHost ''2024-01-01'' (Num 100000000) (Some ''2024-01-10'')
      = ''NaN-NaN-NaN''"
    by (simp add: calculateNextDueDate_canonical [OF canonical_2024_01_01 canonical_2024_01_10 p]
        diffDays_utc_9 addDays_utc_overflow)
  show ?thesis
    unfolding r using canonical_2024_01_01 canonical_2024_01_10 p not_canonical_NaN
      parseDate_NaN [of utcHost] by simp
qed

text \<open>
  C7, as amended. On a host with a fixed offset from UTC, for a canonical anchor and a
  positive integer period such that anchor + period lies in the years 1000 to 9999:
  diffDays(anchor, calculateNextDueDate(anchor, period, anchor)) is the period.
\<close>

theorem anchor_activity_rolls_one_period:
  assumes "LocalTZA e = (\<lambda>t b. c)" and "\<bar>c\<bar> < msPerDay"
    and "canonical anchor" and "0 < p" and "fourDigitYears (dayNumber anchor + p)"
  shows "diffDays e anchor (calculateNextDueDate e anchor (Num p) (Some anchor)) = p"
proof -
  have r: "dayNumber anchor + p \<le> 99999999"
    using fourDigitYears_le [OF assms(5)] by simp
  have nd: "calculateNextDueDate e anchor (Num p) (Some anchor) = formatDay (dayNumber anchor + p)"
    using nextDue_fixed [OF assms(1,2,3,3,4) r] by simp
  note f = formatDay_canonical [OF assms(5)]
  show ?thesis
    unfolding nd by (simp add: diffDays_fixed [OF assms(1,2,3) f(1)] f(2))
qed

theorem anchor_activity_rolls_one_period_witness:
  "LocalTZA utcHost = (\<lambda>t b. 0) \<and> \<bar>0\<bar> < msPerDay \<and> canonical ''2024-01-01'' \<and> (0::int) < 7
   \<and> fourDigitYears (dayNumber ''2024-01-01'' + 7)
   \<and> diffDays utcHost ''2024-01-01''
         (calculateNextDueDate utcHost ''2024-01-01'' (Num 7) (Some ''2024-01-01'')) = 7"
proof -
  have p: "(0::int) < 7" by simp
  have f: "fourDigitYears (dayNumber ''2024-01-01'' + 7)"
    by (simp add: dayNumber_2024 fourDigitYears_2024)
  note h = anchor_activity_rolls_one_period [OF utcHost_fixed canonical_2024_01_01 p f]
  show ?thesis
    using utcHost_fixed canonical_2024_01_01 p f h by blast
qed

lemma diffDays_same_utc: "diffDays utcHost ''2024-01-01'' ''2024-01-01'' = 0"
  by (simp add: diffDays_fixed [OF utcHost_fixed canonical_2024_01_01 canonical_2024_01_01])

theorem anchor_activity_rolls_one_period_counterexample:
  "canonical ''2024-01-01'' \<and> (0::int) < 100000000
   \<and> calculateNextDueDate utcHost ''2024-01-01'' (Num 100000000) (Some ''2024-01-01'')
       = ''NaN-NaN-NaN''
   \<and> diffDays utcHost ''2024-01-01''
         (calculateNextDueDate utcHost ''2024-01-01'' (Num 100000000) (Some ''2024-01-01'')) = 0
   \<and> diffDays utcHost ''2024-01-01''
         (calculateNextDueDate utcHost ''2024-01-01'' (Num 100000000) (Some ''2024-01-01''))
       \<noteq> 100000000"
proof -
  have p: "(0::int) < 100000000" by simp
  have r: "calculateNextDueDate utcHost ''2024-01-01'' (Num 100000000) (Some ''2024-01-01'')
      = ''NaN-NaN-NaN''"
    by (simp add: calculateNextDueDate_canonical [OF canonical_2024_01_01 canonical_2024_01_01 p]
        diffDays_same_utc addDays_utc_overflow)
  have d: "diffDays utcHost ''2024-01-01'' ''NaN-NaN-NaN'' = 0"
    by (simp add: diffDays_def parseDate_NaN split: option.splits)
  show ?thesis
    unfolding r d using canonical_2024_01_01 by simp
qed

text \<open>
  C3. calculateMissedCount returns 0 when diffDays(next_due, reference_date) is not
  positive and floor((days_late - 1) / period) + 1 otherwise: this part holds on every
  host (lemma \<open>missedCount_formula\<close> below), and with it the four boundary cases on a
  host with a fixed offset (lemma \<open>missedCount_boundaries_fixed\<close>). The boundary case
  "next_due + 1 day gives 1" fails in New York for next_due = 2024-03-10: the two local
  midnights are 23 hours apart, diffDays returns 0 and the missed count is 0.
\<close>

theorem missed_count_day_after_clock_change:
  "canonical ''2024-03-10'' \<and> canonical ''2024-03-11''
   \<and> addDays newYorkHost ''2024-03-10'' 1 = ''2024-03-11''
   \<and> diffDays newYorkHost ''2024-03-10'' ''2024-03-11'' = 0
   \<and> calculateMissedCount newYorkHost ''2024-03-10'' (Num 7) ''2024-03-11'' = 0"
  by (simp add: canonical_2024_03 addDays_newYork diffDays_newYork calculateMissedCount_def)

theorem missed_count_day_after_clock_change_witness:
  "calculateMissedCount newYorkHost ''2024-03-10'' (Num 7) (addDays newYorkHost ''2024-03-10'' 1)
     \<noteq> 1"
  using missed_count_day_after_clock_change by simp

lemma missedCount_formula:
  assumes "nextDue \<noteq> []" and "0 < p"
  shows "calculateMissedCount e nextDue (Num p) ref =
     (if diffDays e nextDue ref \<le> 0 then 0 else (diffDays e nextDue ref - 1) div p + 1)"
  using assms by (simp add: calculateMissedCount_def Let_def)

lemma missedCount_boundaries_fixed:
  assumes tz: "LocalTZA e = (\<lambda>t b. c)" and c: "\<bar>c\<bar> < msPerDay"
    and nd: "canonical nextDue"
    and f: "fourDigitYears (dayNumber nextDue)" "fourDigitYears (dayNumber nextDue + 8)"
  shows "calculateMissedCount e nextDue (Num 7) nextDue = 0"
    and "calculateMissedCount e nextDue (Num 7) (addDays e nextDue 1) = 1"
    and "calculateMissedCount e nextDue (Num 7) (addDays e nextDue 7) = 1"
    and "calculateMissedCount e nextDue (Num 7) (addDays e nextDue 8) = 2"
proof -
  have ne: "nextDue \<noteq> []" by (rule canonical_nonempty [OF nd])
  have p: "(0::int) < 7" by simp
  have k: "diffDays e nextDue (addDays e nextDue k) = k" if "0 \<le> k" "k \<le> 8" for k
  proof -
    have fk: "fourDigitYears (dayNumber nextDue + k)"
      using that by (intro fourDigitYears_between [OF f]) simp_all
    have "addDays e nextDue k = formatDay (dayNumber nextDue + k)"
      by (intro addDays_fixed [OF tz c nd] fourDigitYears_clip [OF fk c])
    then show ?thesis
      using formatDay_canonical [OF fk]
      by (simp add: diffDays_fixed [OF tz c nd])
  qed
  show "calculateMissedCount e nextDue (Num 7) nextDue = 0"
    by (simp add: missedCount_formula [OF ne p] diffDays_fixed [OF tz c nd nd])
  show "calculateMissedCount e nextDue (Num 7) (addDays e nextDue 1) = 1"
    by (simp add: missedCount_formula [OF ne p] k)
  show "calculateMissedCount e nextDue (Num 7) (addDays e nextDue 7) = 1"
    by (simp add: missedCount_formula [OF ne p] k)
  show "calculateMissedCount e nextDue (Num 7) (addDays e nextDue 8) = 2"
    by (simp add: missedCount_formula [OF ne p] k)
qed

text \<open>
  C8. listDueCheckins returns exactly the rows of listScheduledTeams whose recomputed
  next due date is \<open>\<le>\<close> today (as strings), each with that date, sorted ascending by
  it. listUpcomingCheckins returns the first \<open>limit\<close> (3 when the limit is missing)
  entries of the list of exactly the rows whose recomputed next due date is \<open>>\<close> today,
  sorted ascending by it; the whole list is the listing with the number of rows as
  limit.
\<close>

theorem due_and_upcoming_listings:
  assumes "0 \<le> n"
  shows "mset (map d_row (listDueCheckins e d))
           = mset (filter (\<lambda>row. rowNextDue e row \<le> today e) (listScheduledTeams d))
    \<and> map d_next_due (listDueCheckins e d) = map (rowNextDue e \<circ> d_row) (listDueCheckins e d)
    \<and> sorted (map d_next_due (listDueCheckins e d))
    \<and> mset (map u_row (listUpcomingCheckins e d (Some (int (length (listScheduledTeams d))))))
           = mset (filter (\<lambda>row. today e < rowNextDue e row) (listScheduledTeams d))
    \<and> map u_next_due (listUpcomingCheckins e d (Some (int (length (listScheduledTeams d)))))
           = map (rowNextDue e \<circ> u_row)
               (listUpcomingCheckins e d (Some (int (length (listScheduledTeams d)))))
    \<and> sorted (map u_next_due
                 (listUpcomingCheckins e d (Some (int (length (listScheduledTeams d))))))
    \<and> listUpcomingCheckins e d (Some n)
           = take (nat n) (listUpcomingCheckins e d (Some (int (length (listScheduledTeams d)))))
    \<and> listUpcomingCheckins e d None
           = take 3 (listUpcomingCheckins e d (Some (int (length (listScheduledTeams d)))))"
proof -
  define rows where "rows = listScheduledTeams d"
  define mkd where "mkd = (\<lambda>row. \<lparr>d_row = row, d_next_due = rowNextDue e row,
      d_missed_count = calculateMissedCount e (rowNextDue e row) (Num (st_cadence_days row))
        (today e)\<rparr>)"
  define mku where "mku = (\<lambda>row. \<lparr>u_row = row, u_next_due = rowNextDue e row\<rparr>)"
  define due where "due = sort_key d_next_due
      (filter (\<lambda>row. d_next_due row \<le> today e) (map mkd rows))"
  define up where "up = sort_key u_next_due
      (filter (\<lambda>row. u_next_due row > today e) (map mku rows))"
  have ld: "listDueCheckins e d = due"
    by (simp add: listDueCheckins_def Let_def due_def mkd_def rows_def)
  have lu: "listUpcomingCheckins e d limit
      = slice0 up (case limit of None \<Rightarrow> 3 | Some n \<Rightarrow> n)" for limit
    by (simp add: listUpcomingCheckins_def Let_def up_def mku_def rows_def)
  have pm: "mset (map f (sort_key k xs)) = mset (map f xs)" for f :: "'x \<Rightarrow> 'y"
    and k :: "'x \<Rightarrow> string" and xs
    by (simp only: mset_map mset_sort)
  have "map d_row (filter (\<lambda>row. d_next_due row \<le> today e) (map mkd rows))
      = filter (\<lambda>row. rowNextDue e row \<le> today e) rows"
    by (simp add: filter_map comp_def mkd_def)
  then have d1: "mset (map d_row due) = mset (filter (\<lambda>row. rowNextDue e row \<le> today e) rows)"
    unfolding due_def pm by simp
  have d2: "map d_next_due due = map (rowNextDue e \<circ> d_row) due"
    by (auto simp add: due_def mkd_def)
  have d3: "sorted (map d_next_due due)" by (simp add: due_def)
  have "map u_row (filter (\<lambda>row. u_next_due row > today e) (map mku rows))
      = filter (\<lambda>row. today e < rowNextDue e row) rows"
    by (simp add: filter_map comp_def mku_def)
  then have u1: "mset (map u_row up) = mset (filter (\<lambda>row. today e < rowNextDue e row) rows)"
    unfolding up_def pm by simp
  have u2: "map u_next_due up = map (rowNextDue e \<circ> u_row) up"
    by (auto simp add: up_def mku_def)
  have u3: "sorted (map u_next_due up)" by (simp add: up_def)
  have len: "length up \<le> length rows"
    using length_filter_le [of "\<lambda>row. u_next_due row > today e" "map mku rows"]
    by (simp add: up_def)
  have full: "listUpcomingCheckins e d (Some (int (length rows))) = up"
    using len by (simp add: lu slice0_def)
  have un: "listUpcomingCheckins e d (Some n) = take (nat n) up"
    using assms by (simp add: lu slice0_def)
  have u0: "listUpcomingCheckins e d None = take 3 up"
    by (simp add: lu slice0_def)
  show ?thesis
    unfolding rows_def [symmetric] full ld
    using d1 d2 d3 u1 u2 u3 un u0 by simp
qed

theorem due_and_upcoming_listings_witness:
  "(0::int) \<le> 1
    \<and> mset (map d_row (listDueCheckins utcHost exampleDb))
           = mset (filter (\<lambda>row. rowNextDue utcHost row \<le> today utcHost)
               (listScheduledTeams exampleDb))
    \<and> map d_next_due (listDueCheckins utcHost exampleDb)
           = map (rowNextDue utcHost \<circ> d_row) (listDueCheckins utcHost exampleDb)
    \<and> sorted (map d_next_due (listDueCheckins utcHost exampleDb))
    \<and> mset (map u_row (listUpcomingCheckins utcHost exampleDb
                 (Some (int (length (listScheduledTeams exampleDb))))))
           = mset (filter (\<lambda>row. today utcHost < rowNextDue utcHost row)
               (listScheduledTeams exampleDb))
    \<and> sorted (map u_next_due (listUpcomingCheckins utcHost exampleDb
                 (Some (int (length (listScheduledTeams exampleDb))))))
    \<and> listUpcomingCheckins utcHost exampleDb (Some 1)
           = take (nat 1) (listUpcomingCheckins utcHost exampleDb
               (Some (int (length (listScheduledTeams exampleDb)))))
    \<and> listUpcomingCheckins utcHost exampleDb None
           = take 3 (listUpcomingCheckins utcHost exampleDb
               (Some (int (length (listScheduledTeams exampleDb)))))"
proof -
  have p: "(0::int) \<le> 1" by simp
  note h = due_and_upcoming_listings [OF p, of utcHost exampleDb]
  show ?thesis using p h by blast
qed

text \<open>
  C4. getSchedule takes its anchor from the start_date column, and falls back to the
  next_due column only for a row whose start_date is empty. No row the program writes has
  an empty start_date (upsertSchedule stores the result of normalizeDate, createCheckin
  leaves the column alone, and the migration that adds the column fills it). For such a
  row the next_due and missed_count that getSchedule returns do not depend on the stored
  next_due column: overwriting that column in every row, with any values, leaves both
  unchanged.
\<close>

theorem schedule_read_ignores_stored_next_due:
  assumes "\<forall>s\<in>set (checkin_schedules d). s_team_id s = teamId \<longrightarrow> s_start_date s \<noteq> []"
  shows "map_option (\<lambda>v. (v_next_due v, v_missed_count v))
           (getSchedule e
              (d\<lparr>checkin_schedules := map (\<lambda>s. s\<lparr>s_next_due := f s\<rparr>) (checkin_schedules d)\<rparr>)
              teamId)
         = map_option (\<lambda>v. (v_next_due v, v_missed_count v)) (getSchedule e d teamId)"
proof -
  define d' where
    "d' = d\<lparr>checkin_schedules := map (\<lambda>s. s\<lparr>s_next_due := f s\<rparr>) (checkin_schedules d)\<rparr>"
  have fm: "find (\<lambda>s. s_team_id s = teamId) (checkin_schedules d')
      = map_option (\<lambda>s. s\<lparr>s_next_due := f s\<rparr>)
          (find (\<lambda>s. s_team_id s = teamId) (checkin_schedules d))"
    by (simp add: d'_def find_map_same)
  have lc: "getLastTeamCheckinDate e d' teamId = getLastTeamCheckinDate e d teamId"
    by (simp add: getLastTeamCheckinDate_def d'_def)
  show ?thesis
  proof (cases "find (\<lambda>s. s_team_id s = teamId) (checkin_schedules d)")
    case None
    then show ?thesis
      unfolding d'_def [symmetric] by (simp add: getSchedule_def fm)
  next
    case (Some r)
    then have "r \<in> set (checkin_schedules d) \<and> s_team_id r = teamId"
      by (auto simp add: find_Some_iff)
    with assms have "s_start_date r \<noteq> []" by blast
    then show ?thesis
      unfolding d'_def [symmetric] by (simp add: getSchedule_def fm lc Some Let_def)
  qed
qed

theorem schedule_read_ignores_stored_next_due_witness:
  "map_option (\<lambda>v. (v_next_due v, v_missed_count v))
     (getSchedule utcHost
        (exampleDb\<lparr>checkin_schedules :=
            map (\<lambda>s. s\<lparr>s_next_due := ''1999-12-31''\<rparr>) (checkin_schedules exampleDb)\<rparr>) 1)
   = map_option (\<lambda>v. (v_next_due v, v_missed_count v)) (getSchedule utcHost exampleDb 1)"
proof -
  have "\<forall>s\<in>set (checkin_schedules exampleDb). s_team_id s = 1 \<longrightarrow> s_start_date s \<noteq> []"
    by (simp add: exampleDb_def)
  then show ?thesis
    by (rule schedule_read_ignores_stored_next_due)
qed

text \<open>
  C9. upsertSchedule for a team with no schedule row inserts a row whose next_due is the
  normalized start date and returns that date, whatever check-ins the team has; for a team
  with a row it updates the rows of the team with the recomputed next due date and returns
  it. In the example store without its schedule rows, the first team has a check-in on
  10 January 2024: a weekly schedule from 1 January 2024 is inserted with next_due
  2024-01-01, while the recomputed next due date is 2024-01-15.
\<close>

theorem upsert_schedule_insert_and_update:
  "(find (\<lambda>s. s_team_id s = teamId) (checkin_schedules d) = None
      \<and> teamId \<in> set (map t_id (teams d)) \<longrightarrow>
      (\<exists>d'. upsertSchedule e d teamId cadenceDays startDateInput
               = Inr (normalizeDate e startDateInput, d')
         \<and> find (\<lambda>s. s_team_id s = teamId) (checkin_schedules d')
             = Some \<lparr>s_id = nextRowId (map s_id (checkin_schedules d)), s_team_id = teamId,
                      s_cadence_days = cadenceDays,
                      s_start_date = normalizeDate e startDateInput,
                      s_next_due = normalizeDate e startDateInput, s_created_at = now e\<rparr>))
   \<and> (find (\<lambda>s. s_team_id s = teamId) (checkin_schedules d) = Some r \<longrightarrow>
      (\<exists>d'. upsertSchedule e d teamId cadenceDays startDateInput
               = Inr (calculateNextDueDate e (normalizeDate e startDateInput) (Num cadenceDays)
                        (getLastTeamCheckinDate e d teamId), d')
         \<and> find (\<lambda>s. s_team_id s = teamId) (checkin_schedules d')
             = Some (r\<lparr>s_cadence_days := cadenceDays,
                        s_start_date := normalizeDate e startDateInput,
                        s_next_due := calculateNextDueDate e (normalizeDate e startDateInput)
                          (Num cadenceDays) (getLastTeamCheckinDate e d teamId)\<rparr>)))"
proof (intro conjI impI)
  assume a: "find (\<lambda>s. s_team_id s = teamId) (checkin_schedules d) = None
      \<and> teamId \<in> set (map t_id (teams d))"
  then have n: "find (\<lambda>s. s_team_id s = teamId) (checkin_schedules d) = None"
    and t: "teamId \<in> set (map t_id (teams d))" by simp_all
  have fa: "find P (xs @ [x]) = (case find P xs of None \<Rightarrow> (if P x then Some x else None)
      | Some y \<Rightarrow> Some y)" for P :: "schedule \<Rightarrow> bool" and xs x
    by (induction xs) simp_all
  show "\<exists>d'. upsertSchedule e d teamId cadenceDays startDateInput
               = Inr (normalizeDate e startDateInput, d')
         \<and> find (\<lambda>s. s_team_id s = teamId) (checkin_schedules d')
             = Some \<lparr>s_id = nextRowId (map s_id (checkin_schedules d)), s_team_id = teamId,
                      s_cadence_days = cadenceDays,
                      s_start_date = normalizeDate e startDateInput,
                      s_next_due = normalizeDate e startDateInput, s_created_at = now e\<rparr>"
    using n t by (simp add: upsertSchedule_def Let_def fa)
next
  assume s: "find (\<lambda>s. s_team_id s = teamId) (checkin_schedules d) = Some r"
  then have rt: "s_team_id r = teamId" by (auto simp add: find_Some_iff)
  define nd where "nd = calculateNextDueDate e (normalizeDate e startDateInput)
      (Num cadenceDays) (getLastTeamCheckinDate e d teamId)"
  define g :: "schedule \<Rightarrow> schedule" where "g = (\<lambda>s. if s_team_id s = teamId
      then s\<lparr>s_cadence_days := cadenceDays, s_start_date := normalizeDate e startDateInput,
             s_next_due := nd\<rparr> else s)"
  have "find (\<lambda>s. s_team_id s = teamId) (map g (checkin_schedules d))
      = map_option g (find (\<lambda>s. s_team_id s = teamId) (checkin_schedules d))"
    by (rule find_map_same) (simp add: g_def)
  then have f: "find (\<lambda>s. s_team_id s = teamId) (map g (checkin_schedules d))
      = Some (r\<lparr>s_cadence_days := cadenceDays, s_start_date := normalizeDate e startDateInput,
                 s_next_due := nd\<rparr>)"
    using rt by (simp add: s g_def)
  show "\<exists>d'. upsertSchedule e d teamId cadenceDays startDateInput
               = Inr (calculateNextDueDate e (normalizeDate e startDateInput) (Num cadenceDays)
                        (getLastTeamCheckinDate e d teamId), d')
         \<and> find (\<lambda>s. s_team_id s = teamId) (checkin_schedules d')
             = Some (r\<lparr>s_cadence_days := cadenceDays,
                        s_start_date := normalizeDate e startDateInput,
                        s_next_due := calculateNextDueDate e (normalizeDate e startDateInput)
                          (Num cadenceDays) (getLastTeamCheckinDate e d teamId)\<rparr>)"
    using s f [unfolded g_def nd_def] by (simp add: upsertSchedule_def Let_def)
qed

lemma formatDay_19732: "formatDay 19732 = ''2024-01-10''"
  by (subst formatDay_in_year [of 2024]) (simp_all add: format_eval)

lemma lastCheckin_example:
  "getLastTeamCheckinDate utcHost (exampleDb\<lparr>checkin_schedules := xs\<rparr>) 1 = Some ''2024-01-10''"
proof -
  have t: "parseTimePart ''12:00:00.000'' = Some 43200000"
    by (simp add: parseTimePart_def isDigit_def digitsVal_def digitVal_def MakeTime_def)
  have "newDate utcHost ''2024-01-10T12:00:00.000Z'' = Some (19732 * 86400000 + 43200000)"
    by (simp add: newDate_def parseDay_lenient [OF parseDay_2024_01_10] parseTimeZ_def t MakeDate_def TimeClip_def
        msPerDay_def)
  then show ?thesis
    by (simp add: getLastTeamCheckinDate_def exampleDb_def toLocalDate_def
        formatLocalDate_Some fixed_LocalTime(1) [OF utcHost_fixed(1)] Day_def msPerDay_def
        formatDay_19732)
qed

lemma nextDue_example:
  "calculateNextDueDate utcHost ''2024-01-01'' (Num 7) (Some ''2024-01-10'') = ''2024-01-15''"
  using nextDue_fixed [OF utcHost_fixed canonical_2024_01_01 canonical_2024_01_10, of 7]
  by (simp add: dayNumber_2024 formatDay_19737)

theorem upsert_schedule_insert_and_update_witness:
  "find (\<lambda>s. s_team_id s = 1) (checkin_schedules (exampleDb\<lparr>checkin_schedules := []\<rparr>)) = None
   \<and> 1 \<in> set (map t_id (teams (exampleDb\<lparr>checkin_schedules := []\<rparr>)))
   \<and> (\<exists>d'. upsertSchedule utcHost (exampleDb\<lparr>checkin_schedules := []\<rparr>) 1 7
               (Some ''2024-01-01'') = Inr (''2024-01-01'', d')
         \<and> map_option s_next_due (find (\<lambda>s. s_team_id s = 1) (checkin_schedules d'))
             = Some ''2024-01-01'')
   \<and> calculateNextDueDate utcHost ''2024-01-01'' (Num 7)
        (getLastTeamCheckinDate utcHost (exampleDb\<lparr>checkin_schedules := []\<rparr>) 1)
       = ''2024-01-15''"
proof -
  define d0 where "d0 = exampleDb\<lparr>checkin_schedules := []\<rparr>"
  have n: "find (\<lambda>s. s_team_id s = 1) (checkin_schedules d0) = None"
    by (simp add: d0_def)
  have t: "1 \<in> set (map t_id (teams d0))"
    by (simp add: d0_def exampleDb_def)
  have nz: "normalizeDate utcHost (Some ''2024-01-01'') = ''2024-01-01''"
    by (rule normalizeDate_canonical [OF canonical_2024_01_01])
  note h = upsert_schedule_insert_and_update [of 1 d0 utcHost 7 "Some ''2024-01-01''"]
  from h n t obtain d' where
    u: "upsertSchedule utcHost d0 1 7 (Some ''2024-01-01'') = Inr (''2024-01-01'', d')"
    and f: "find (\<lambda>s. s_team_id s = 1) (checkin_schedules d')
      = Some \<lparr>s_id = nextRowId (map s_id (checkin_schedules d0)), s_team_id = 1,
               s_cadence_days = 7, s_start_date = ''2024-01-01'',
               s_next_due = ''2024-01-01'', s_created_at = now utcHost\<rparr>"
    unfolding nz by blast
  have e: "\<exists>d'. upsertSchedule utcHost d0 1 7 (Some ''2024-01-01'') = Inr (''2024-01-01'', d')
         \<and> map_option s_next_due (find (\<lambda>s. s_team_id s = 1) (checkin_schedules d'))
             = Some ''2024-01-01''"
    using u f by (intro exI [of _ d']) simp
  have c: "calculateNextDueDate utcHost ''2024-01-01'' (Num 7)
        (getLastTeamCheckinDate utcHost d0 1) = ''2024-01-15''"
    by (simp add: d0_def lastCheckin_example nextDue_example)
  show ?thesis
    unfolding d0_def [symmetric] using n t e c by blast
qed

lemma today_fixed:
  assumes tz: "LocalTZA e = (\<lambda>t b. c)"
  shows "today e = formatDay (Day (clock e + c))"
  by (simp add: today_def formatLocalDate_Some fixed_LocalTime(1) [OF tz])

lemma createCheckin_result:
  assumes team: "teamId \<in> set (map t_id (teams d))"
    and person: "personId \<in> set (map p_id (people d))"
    and row: "find (\<lambda>s. s_team_id s = teamId) (checkin_schedules d) = Some r"
    and ne: "s_start_date r \<noteq> []"
  shows "\<exists>d'. createCheckin e d teamId personId rating notes
      = Inr (Some (calculateNextDueDate e (s_start_date r) (Num (s_cadence_days r))
               (Some (today e))), d')
    \<and> map_option s_next_due (find (\<lambda>s. s_team_id s = teamId) (checkin_schedules d'))
        = Some (calculateNextDueDate e (s_start_date r) (Num (s_cadence_days r))
                 (Some (today e)))"
proof -
  define nd where
    "nd = calculateNextDueDate e (s_start_date r) (Num (s_cadence_days r)) (Some (today e))"
  define d1 where "d1 = d\<lparr>checkins := checkins d
      @ [\<lparr>c_id = nextRowId (map c_id (checkins d)), c_team_id = teamId,
           c_person_id = personId, c_rating = rating, c_notes = notes,
           c_created_at = now e\<rparr>]\<rparr>"
  define g :: "schedule \<Rightarrow> schedule" where
    "g = (\<lambda>s. if s_team_id s = teamId then s\<lparr>s_next_due := nd\<rparr> else s)"
  have rt: "s_team_id r = teamId" using row by (auto simp add: find_Some_iff)
  have row1: "find (\<lambda>s. s_team_id s = teamId) (checkin_schedules d1) = Some r"
    using row by (simp add: d1_def)
  have gs: "map_option (\<lambda>v. (v_start_date v, v_cadence_days v)) (getSchedule e d1 teamId)
      = Some (s_start_date r, s_cadence_days r)"
    using ne by (simp add: getSchedule_def row1 Let_def)
  then obtain v where v: "getSchedule e d1 teamId = Some v"
    and vs: "v_start_date v = s_start_date r" and vc: "v_cadence_days v = s_cadence_days r"
    by (cases "getSchedule e d1 teamId") auto
  have "find (\<lambda>s. s_team_id s = teamId) (map g (checkin_schedules d1))
      = map_option g (find (\<lambda>s. s_team_id s = teamId) (checkin_schedules d1))"
    by (rule find_map_same) (simp add: g_def)
  then have fnd: "map_option s_next_due
      (find (\<lambda>s. s_team_id s = teamId) (map g (checkin_schedules d1))) = Some nd"
    using rt by (simp add: row1 g_def)
  have cc: "createCheckin e d teamId personId rating notes
      = Inr (Some nd, d1\<lparr>checkin_schedules := map g (checkin_schedules d1)\<rparr>)"
    using team person
    by (simp add: createCheckin_def Let_def d1_def [symmetric] v vs vc nd_def [symmetric]
        g_def [symmetric])
  show ?thesis
    unfolding nd_def [symmetric] using cc fnd
    by (intro exI [of _ "d1\<lparr>checkin_schedules := map g (checkin_schedules d1)\<rparr>"]) simp
qed

text \<open>
  C10, as amended. On a host with a fixed offset from UTC, for a team and a person in the
  store, a schedule row of the team with a canonical start_date and a positive cadence,
  today in the years 1000 to 9999 and today + cadence no later than 9999-12-31:
  createCheckin completes, and the next_due it returns and stores in the row is a
  canonical date strictly greater than today.
\<close>

theorem checkin_pushes_due_date:
  assumes tz: "LocalTZA e = (\<lambda>t b. c)" and c: "\<bar>c\<bar> < msPerDay"
    and team: "teamId \<in> set (map t_id (teams d))"
    and person: "personId \<in> set (map p_id (people d))"
    and row: "find (\<lambda>s. s_team_id s = teamId) (checkin_schedules d) = Some r"
    and start: "canonical (s_start_date r)" and cadence: "0 < s_cadence_days r"
    and f1: "fourDigitYears (Day (clock e + c))"
    and f2: "fourDigitYears (Day (clock e + c) + s_cadence_days r)"
  shows "\<exists>nextDue d'. createCheckin e d teamId personId rating notes = Inr (Some nextDue, d')
    \<and> map_option s_next_due (find (\<lambda>s. s_team_id s = teamId) (checkin_schedules d'))
        = Some nextDue
    \<and> canonical nextDue \<and> today e < nextDue"
proof -
  define nd where
    "nd = calculateNextDueDate e (s_start_date r) (Num (s_cadence_days r)) (Some (today e))"
  have td: "today e = formatDay (Day (clock e + c))" by (rule today_fixed [OF tz])
  note ct = formatDay_canonical [OF f1, folded td]
  have f1': "fourDigitYears (dayNumber (today e))" using f1 by (simp add: ct(2))
  have f2': "fourDigitYears (dayNumber (today e) + s_cadence_days r)"
    using f2 by (simp add: ct(2))
  note pr = next_due_fixed_properties [OF tz c start ct(1) cadence f1' f2', folded nd_def]
  have less: "today e < nd"
    using pr(2) by (simp add: canonical_order [OF ct(1) pr(1)])
  from createCheckin_result [OF team person row canonical_nonempty [OF start],
      of e rating "notes", folded nd_def]
  obtain d' where "createCheckin e d teamId personId rating notes = Inr (Some nd, d')"
    and "map_option s_next_due (find (\<lambda>s. s_team_id s = teamId) (checkin_schedules d'))
        = Some nd" by blast
  then show ?thesis
    using pr(1) less by (intro exI [of _ nd] exI [of _ d']) simp
qed

lemma exampleDb_row:
  "1 \<in> set (map t_id (teams (exampleDb\<lparr>checkin_schedules := xs\<rparr>)))"
  "1 \<in> set (map p_id (people (exampleDb\<lparr>checkin_schedules := xs\<rparr>)))"
  "1 \<in> set (map t_id (teams exampleDb))" "1 \<in> set (map p_id (people exampleDb))"
  "find (\<lambda>s. s_team_id s = 1) (checkin_schedules exampleDb)
     = Some \<lparr>s_id = 1, s_team_id = 1, s_cadence_days = 7, s_start_date = ''2024-01-01'',
              s_next_due = ''2024-01-01'', s_created_at = ''2024-01-01T09:00:00.000Z''\<rparr>"
  by (simp_all add: exampleDb_def)

lemma Day_clock_utcHost: "Day (clock utcHost) = 20760"
  by (simp add: utcHost_def Day_def msPerDay_def)

theorem checkin_pushes_due_date_witness:
  "LocalTZA utcHost = (\<lambda>t b. 0) \<and> \<bar>0\<bar> < msPerDay
   \<and> 1 \<in> set (map t_id (teams exampleDb)) \<and> 1 \<in> set (map p_id (people exampleDb))
   \<and> fourDigitYears (Day (clock utcHost + 0)) \<and> fourDigitYears (Day (clock utcHost + 0) + 7)
   \<and> (\<exists>nextDue d'. createCheckin utcHost exampleDb 1 1 5 None = Inr (Some nextDue, d')
        \<and> map_option s_next_due (find (\<lambda>s. s_team_id s = 1) (checkin_schedules d'))
            = Some nextDue
        \<and> canonical nextDue \<and> today utcHost < nextDue)"
proof -
  have f: "fourDigitYears (Day (clock utcHost + 0))"
    "fourDigitYears (Day (clock utcHost + 0) + 7)"
    by (simp_all add: Day_clock_utcHost fourDigitYears_def DayFromYear_1000 DayFromYear_10000)
  have h: "\<exists>nextDue d'. createCheckin utcHost exampleDb 1 1 5 None = Inr (Some nextDue, d')
        \<and> map_option s_next_due (find (\<lambda>s. s_team_id s = 1) (checkin_schedules d'))
            = Some nextDue
        \<and> canonical nextDue \<and> today utcHost < nextDue"
    using f by (intro checkin_pushes_due_date [OF utcHost_fixed exampleDb_row(3,4,5)])
      (simp_all add: canonical_2024_01_01)
  show ?thesis
    using utcHost_fixed exampleDb_row(3,4) f h by blast
qed

lemma today_utcHost:
  "today utcHost = formatDay 20760" "canonical (today utcHost)"
  "dayNumber (today utcHost) = 20760"
proof -
  have f: "fourDigitYears 20760"
    by (simp add: fourDigitYears_def DayFromYear_1000 DayFromYear_10000)
  show t: "today utcHost = formatDay 20760"
    using today_fixed [OF utcHost_fixed(1)] by (simp add: Day_clock_utcHost)
  show "canonical (today utcHost)" "dayNumber (today utcHost) = 20760"
    unfolding t by (rule formatDay_canonical [OF f])+
qed

lemma nextDue_overflow_today:
  "calculateNextDueDate utcHost ''2024-01-01'' (Num 100000000) (Some (today utcHost))
     = ''NaN-NaN-NaN''"
proof -
  have p: "(0::int) < 100000000" by simp
  have d: "diffDays utcHost ''2024-01-01'' (today utcHost) = 1037"
    by (simp add: diffDays_fixed [OF utcHost_fixed canonical_2024_01_01 today_utcHost(2)]
        today_utcHost(3) dayNumber_2024)
  show ?thesis
    by (simp add: calculateNextDueDate_canonical [OF canonical_2024_01_01 today_utcHost(2) p]
        d addDays_utc_overflow)
qed

theorem checkin_pushes_due_date_counterexample:
  "canonical ''2024-01-01'' \<and> (0::int) < 100000000
   \<and> map_sum id
        (\<lambda>(nextDue, d').
           (nextDue, map_option s_next_due (find (\<lambda>s. s_team_id s = 1) (checkin_schedules d'))))
        (createCheckin utcHost
           (exampleDb\<lparr>checkin_schedules :=
              [\<lparr>s_id = 1, s_team_id = 1, s_cadence_days = 100000000,
                 s_start_date = ''2024-01-01'', s_next_due = ''2024-01-01'',
                 s_created_at = ''2024-01-01T09:00:00.000Z''\<rparr>]\<rparr>) 1 1 5 None)
       = Inr (Some ''NaN-NaN-NaN'', Some ''NaN-NaN-NaN'')
   \<and> \<not> canonical ''NaN-NaN-NaN'' \<and> parseDate utcHost ''NaN-NaN-NaN'' = None"
proof -
  define r where "r = \<lparr>s_id = 1, s_team_id = 1, s_cadence_days = 100000000,
      s_start_date = ''2024-01-01'', s_next_due = ''2024-01-01'',
      s_created_at = ''2024-01-01T09:00:00.000Z''\<rparr>"
  have row: "find (\<lambda>s. s_team_id s = 1) (checkin_schedules (exampleDb\<lparr>checkin_schedules := [r]\<rparr>))
      = Some r" by (simp add: r_def)
  have ne: "s_start_date r \<noteq> []" by (simp add: r_def)
  from createCheckin_result [OF exampleDb_row(1,2) row ne, of utcHost 5 None]
  obtain d' where "createCheckin utcHost (exampleDb\<lparr>checkin_schedules := [r]\<rparr>) 1 1 5 None
      = Inr (Some ''NaN-NaN-NaN'', d')"
    and "map_option s_next_due (find (\<lambda>s. s_team_id s = 1) (checkin_schedules d'))
      = Some ''NaN-NaN-NaN''"
    by (auto simp add: r_def nextDue_overflow_today)
  then show ?thesis
    unfolding r_def [symmetric]
    using canonical_2024_01_01 not_canonical_NaN parseDate_NaN [of utcHost] by simp
qed

lemma parseDate_newYork_july:
  "parseDate newYorkHost ''2024-01-01'' = Some 1704085200000"
  "parseDate newYorkHost ''2024-07-01'' = Some 1719806400000"
proof -
  have p: "parseDay ''2024-07-01'' = Some 19905" by (simp add: parse_eval)
  have m: "matchesDatePattern ''2024-07-01''" by (simp add: matchesDatePattern_def isDigit_def)
  show "parseDate newYorkHost ''2024-01-01'' = Some 1704085200000"
    using canonical_2024_01_01
    by (simp add: canonical_def parseDate_pattern parseDay_2024_01_01 MakeDate_def UTC_def
        TimeClip_def msPerDay_def newYorkHost_def)
  show "parseDate newYorkHost ''2024-07-01'' = Some 1719806400000"
    using m
    by (simp add: parseDate_pattern p MakeDate_def UTC_def TimeClip_def msPerDay_def
        newYorkHost_def)
qed

lemma formatDay_19905: "formatDay 19905 = ''2024-07-01''"
  by (subst formatDay_in_year [of 2024]) (simp_all add: format_eval)

lemma today_newYork: "today newYorkHost = ''2024-07-01''"
  by (simp add: today_def formatLocalDate_Some newYorkHost_def LocalTime_def Day_def
      msPerDay_def formatDay_19905)

lemma nextDue_newYork_july:
  "diffDays newYorkHost ''2024-01-01'' ''2024-07-01'' = 181"
  "addDays newYorkHost ''2024-01-01'' 182 = ''2024-07-01''"
  "calculateNextDueDate newYorkHost ''2024-01-01'' (Num 7) (Some ''2024-07-01'') = ''2024-07-01''"
proof -
  have c: "canonical ''2024-07-01''"
    by (simp add: canonical_def parse_eval) (simp add: matchesDatePattern_def isDigit_def)
  have p: "(0::int) < 7" by simp
  show d: "diffDays newYorkHost ''2024-01-01'' ''2024-07-01'' = 181"
    by (simp add: diffDays_def parseDate_newYork_july)
  show a: "addDays newYorkHost ''2024-01-01'' 182 = ''2024-07-01''"
    unfolding addDays_any_host [OF parseDate_newYork_july(1)]
    by (simp add: newYorkHost_def LocalTime_def UTC_def Day_def TimeWithinDay_def
        MakeDate_def TimeClip_def msPerDay_def formatLocalDate_Some formatDay_19905)
  show "calculateNextDueDate newYorkHost ''2024-01-01'' (Num 7) (Some ''2024-07-01'')
      = ''2024-07-01''"
    by (simp add: calculateNextDueDate_canonical [OF canonical_2024_01_01 c p] d a)
qed

lemma createCheckin_newYork:
  "today newYorkHost = ''2024-07-01''
   \<and> map_sum id
        (\<lambda>(nextDue, d').
           (nextDue, map_option s_next_due (find (\<lambda>s. s_team_id s = 1) (checkin_schedules d'))))
        (createCheckin newYorkHost exampleDb 1 1 5 None)
       = Inr (Some ''2024-07-01'', Some ''2024-07-01'')"
proof -
  have ne: "s_start_date \<lparr>s_id = 1, s_team_id = 1, s_cadence_days = 7,
      s_start_date = ''2024-01-01'', s_next_due = ''2024-01-01'',
      s_created_at = ''2024-01-01T09:00:00.000Z''\<rparr> \<noteq> []" by simp
  from createCheckin_result [OF exampleDb_row(3,4,5) ne, of newYorkHost 5 None]
  obtain d' where "createCheckin newYorkHost exampleDb 1 1 5 None = Inr (Some ''2024-07-01'', d')"
    and "map_option s_next_due (find (\<lambda>s. s_team_id s = 1) (checkin_schedules d'))
      = Some ''2024-07-01''"
    by (auto simp add: today_newYork nextDue_newYork_july)
  then show ?thesis by (simp add: today_newYork)
qed

end
